theory Spec2Isabelle
  imports Main "HOL-Library.Word" "HOL-Library.Signed_Division"
begin

unbundle bit_operations_syntax

section \<open>Image Viewer: the program entry point and its event loop (Sources/Main.c)\<close>

text \<open>
  The only translation unit under study is \<^verbatim>\<open>Main.c\<close>. Its \<^verbatim>\<open>main\<close> keeps two pieces of
  state between events, the locals \<^verbatim>\<open>Zoom_Factor\<close> (a C \<^verbatim>\<open>int\<close>) and \<^verbatim>\<open>Flipping_Mode\<close> (an enum),
  and everything else it does is a call into SDL, SDL_image, libc or the viewport module.
  The model threads the two locals explicitly and returns the calls made, in order, as a
  list. C \<^verbatim>\<open>int\<close> and \<^verbatim>\<open>Uint32\<close> values are 32-bit words; signed comparisons are \<open><s\<close> and \<open>\<le>s\<close>.
  Unsigned arithmetic wraps around, as C defines it. Signed overflow, which C leaves undefined,
  wraps around in two's complement as well; the properties that involve signed arithmetic are
  stated for ranges in which it does not occur.
\<close>

subsection \<open>Constants of the headers\<close>

text \<open>
  \<^verbatim>\<open>Configuration.h\<close> is not part of the sources at hand, so the two macros that \<^verbatim>\<open>main\<close> reads
  from it are parameters of the model.
\<close>

record configuration =
  CONFIGURATION_VIEWPORT_MAXIMUM_ZOOM_FACTOR :: "32 word"
  CONFIGURATION_DISPLAY_REFRESH_RATE_PERIOD :: "32 word"

text \<open>
  Modelled from the spec: \<^verbatim>\<open>Viewport.h\<close>, which declares the enum \<^verbatim>\<open>TViewportFlippingModeID\<close>,
  is missing. The spec gives four modes in the cycle order NONE, HORIZONTAL, VERTICAL, BOTH, and
  the usage text of \<^verbatim>\<open>Main.c\<close> lists the same order; the enumerators are numbered from 0 and
  \<^verbatim>\<open>VIEWPORT_FLIPPING_MODE_IDS_COUNT\<close> closes the enum.
\<close>

definition VIEWPORT_FLIPPING_MODE_ID_NORMAL :: "32 word" where
  "VIEWPORT_FLIPPING_MODE_ID_NORMAL = 0"

definition VIEWPORT_FLIPPING_MODE_ID_HORIZONTAL :: "32 word" where
  "VIEWPORT_FLIPPING_MODE_ID_HORIZONTAL = 1"

definition VIEWPORT_FLIPPING_MODE_ID_VERTICAL :: "32 word" where
  "VIEWPORT_FLIPPING_MODE_ID_VERTICAL = 2"

definition VIEWPORT_FLIPPING_MODE_ID_HORIZONTAL_AND_VERTICAL :: "32 word" where
  "VIEWPORT_FLIPPING_MODE_ID_HORIZONTAL_AND_VERTICAL = 3"

definition VIEWPORT_FLIPPING_MODE_IDS_COUNT :: "32 word" where
  "VIEWPORT_FLIPPING_MODE_IDS_COUNT = 4"

text \<open>Values of the SDL2, SDL2_image and libc headers that \<^verbatim>\<open>main\<close> compares against.\<close>

definition SDL_WINDOWEVENT_SIZE_CHANGED :: "8 word" where
  "SDL_WINDOWEVENT_SIZE_CHANGED = 6"

definition SDLK_f :: "32 word" where
  "SDLK_f = 102"

definition SDLK_q :: "32 word" where
  "SDLK_q = 113"

definition SDLK_s :: "32 word" where
  "SDLK_s = 115"

definition IMG_INIT_JPG :: "32 word" where
  "IMG_INIT_JPG = 1"

definition IMG_INIT_PNG :: "32 word" where
  "IMG_INIT_PNG = 2"

definition IMG_INIT_TIF :: "32 word" where
  "IMG_INIT_TIF = 4"

definition EXIT_SUCCESS :: int where
  "EXIT_SUCCESS = 0"

definition EXIT_FAILURE :: int where
  "EXIT_FAILURE = 1"

subsection \<open>Events, calls and the state of \<^verbatim>\<open>main\<close>\<close>

text \<open>
  One constructor per \<^verbatim>\<open>case\<close> of the \<^verbatim>\<open>switch\<close> on \<^verbatim>\<open>Event.type\<close>, with the fields that the case
  reads. \<open>SDL_MOUSEWHEEL\<close> carries, after \<^verbatim>\<open>Event.wheel.y\<close>, the two coordinates that
  \<^verbatim>\<open>SDL_GetMouseState\<close> yields while the event is handled. \<open>SDL_OTHER\<close> is every event type
  that falls to \<^verbatim>\<open>default\<close>.
\<close>

datatype SDL_Event =
    SDL_QUIT
  | SDL_WINDOWEVENT "8 word" "32 word" "32 word"
  | SDL_MOUSEWHEEL "32 word" "32 word" "32 word"
  | SDL_KEYDOWN "32 word"
  | SDL_MOUSEMOTION "32 word" "32 word"
  | SDL_OTHER

datatype diagnostic =
    SDL_Init_failed
  | IMG_Init_failed
  | IMG_Load_failed string

datatype call =
    MainDisplayProgramUsage "string option"
  | printf diagnostic
  | SDL_Init
  | atexit_MainExit
  | IMG_Init
  | IMG_Load string
  | ViewportInitialize string
  | SDL_FreeSurface
  | ViewportSetDimensions "32 word" "32 word"
  | ViewportSetZoomedArea "32 word" "32 word" "32 word"
  | ViewportSetFlippingMode "32 word"
  | ViewportScaleImage
  | ViewportDrawImage
  | SDL_Delay "32 word"
  | IMG_Quit
  | SDL_Quit

record main_state =
  Zoom_Factor :: "32 word"
  Flipping_Mode :: "32 word"

text \<open>
  What a piece of \<^verbatim>\<open>main\<close> does next: \<open>Return r\<close> is \<^verbatim>\<open>return r\<close>, \<open>Continue s\<close> is falling
  through with the locals \<open>s\<close>.
\<close>

datatype flow = Return int | Continue main_state

subsection \<open>The switch on the event type (lines 107 to 173)\<close>

text \<open>
  Line 166: \<^verbatim>\<open>for (i = 1; i <= Zoom_Factor; i <<= 1) ViewportSetZoomedArea(x, y, i);\<close>.
  The loop need not end (once \<open>i\<close> has wrapped to 0 it stays there), so the function is
  partial: \<open>None\<close> is a loop that runs forever. The last argument collects the calls made
  so far.
\<close>

partial_function (option) zoom_steps ::
  "32 word \<Rightarrow> 32 word \<Rightarrow> 32 word \<Rightarrow> 32 word \<Rightarrow> call list \<Rightarrow> call list option" where
  "zoom_steps x y zoom i calls =
     (if i \<le>s zoom
      then zoom_steps x y zoom (push_bit 1 i) (calls @ [ViewportSetZoomedArea x y i])
      else Some calls)"

text \<open>Lines 123 to 131: the new zoom factor after a wheel event with \<^verbatim>\<open>Event.wheel.y\<close> = \<open>wy\<close>.\<close>

definition wheel_zoom :: "configuration \<Rightarrow> 32 word \<Rightarrow> 32 word \<Rightarrow> 32 word" where
  "wheel_zoom cfg wy zoom =
     (if 0 <s wy
      then (if zoom <s CONFIGURATION_VIEWPORT_MAXIMUM_ZOOM_FACTOR cfg then zoom * 2 else zoom)
      else (if 1 <s zoom then word_of_int (sint zoom sdiv 2) else zoom))"

text \<open>Lines 142 and 143: \<^verbatim>\<open>Flipping_Mode++\<close>, then back to 0 once the count is reached.\<close>

definition next_flipping_mode :: "32 word \<Rightarrow> 32 word" where
  "next_flipping_mode m =
     (let m' = m + 1 in if m' \<ge> VIEWPORT_FLIPPING_MODE_IDS_COUNT then 0 else m')"

fun handle_event :: "configuration \<Rightarrow> main_state \<Rightarrow> SDL_Event \<Rightarrow> (flow \<times> call list) option" where
  "handle_event cfg s SDL_QUIT = Some (Return EXIT_SUCCESS, [])"
| "handle_event cfg s (SDL_WINDOWEVENT e data1 data2) =
     (if e = SDL_WINDOWEVENT_SIZE_CHANGED
      then Some (Continue (s\<lparr>Zoom_Factor := 1\<rparr>), [ViewportSetDimensions data1 data2])
      else Some (Continue s, []))"
| "handle_event cfg s (SDL_MOUSEWHEEL wy Mouse_X Mouse_Y) =
     (let z = wheel_zoom cfg wy (Zoom_Factor s)
      in Some (Continue (s\<lparr>Zoom_Factor := z\<rparr>), [ViewportSetZoomedArea Mouse_X Mouse_Y z]))"
| "handle_event cfg s (SDL_KEYDOWN keysym) =
     (if keysym = SDLK_f
      then (let m = next_flipping_mode (Flipping_Mode s)
            in Some (Continue (s\<lparr>Flipping_Mode := m, Zoom_Factor := 1\<rparr>),
                     [ViewportSetFlippingMode m]))
      else if keysym = SDLK_q then Some (Return EXIT_SUCCESS, [])
      else if keysym = SDLK_s
      then Some (Continue (s\<lparr>Zoom_Factor := 1\<rparr>), [ViewportScaleImage])
      else Some (Continue s, []))"
| "handle_event cfg s (SDL_MOUSEMOTION x y) =
     (if 1 <s Zoom_Factor s
      then (case zoom_steps x y (Zoom_Factor s) 1 [] of
              None \<Rightarrow> None
            | Some cs \<Rightarrow> Some (Continue s, cs))
      else Some (Continue s, []))"
| "handle_event cfg s SDL_OTHER = Some (Continue s, [])"

subsection \<open>The polling loop and one frame (lines 100 to 181)\<close>

text \<open>
  \<^verbatim>\<open>while (SDL_PollEvent(&Event))\<close>: the argument is the list of events that \<^verbatim>\<open>SDL_PollEvent\<close>
  hands out, in order, before it returns 0. A \<^verbatim>\<open>return\<close> inside the switch leaves the events
  behind it alone.
\<close>

fun poll_events :: "configuration \<Rightarrow> main_state \<Rightarrow> SDL_Event list \<Rightarrow> (flow \<times> call list) option" where
  "poll_events cfg s [] = Some (Continue s, [])"
| "poll_events cfg s (Event # later) =
     (case handle_event cfg s Event of
        None \<Rightarrow> None
      | Some (Return r, cs) \<Rightarrow> Some (Return r, cs)
      | Some (Continue s', cs) \<Rightarrow>
          (case poll_events cfg s' later of
             None \<Rightarrow> None
           | Some (fl, cs') \<Rightarrow> Some (fl, cs @ cs')))"

text \<open>
  What the environment supplies to one iteration of \<^verbatim>\<open>while (1)\<close>: the pending events and the
  two readings of \<^verbatim>\<open>SDL_GetTicks\<close>, at line 103 and at line 179.
\<close>

record frame =
  pending :: "SDL_Event list"
  Frame_Starting_Time :: "32 word"
  ticks_after_draw :: "32 word"

text \<open>Lines 179 and 180, in \<^verbatim>\<open>unsigned int\<close> arithmetic.\<close>

definition frame_delay :: "configuration \<Rightarrow> 32 word \<Rightarrow> 32 word \<Rightarrow> call list" where
  "frame_delay cfg start now =
     (let Elapsed_Time = now - start
      in if Elapsed_Time < CONFIGURATION_DISPLAY_REFRESH_RATE_PERIOD cfg
         then [SDL_Delay (CONFIGURATION_DISPLAY_REFRESH_RATE_PERIOD cfg - Elapsed_Time)]
         else [])"

definition main_iteration :: "configuration \<Rightarrow> main_state \<Rightarrow> frame \<Rightarrow> (flow \<times> call list) option" where
  "main_iteration cfg s f =
     (case poll_events cfg s (pending f) of
        None \<Rightarrow> None
      | Some (Return r, cs) \<Rightarrow> Some (Return r, cs)
      | Some (Continue s', cs) \<Rightarrow>
          Some (Continue s',
                cs @ [ViewportDrawImage] @ frame_delay cfg (Frame_Starting_Time f) (ticks_after_draw f)))"

text \<open>
  \<^verbatim>\<open>while (1)\<close> over the frames that the environment supplies. When they are used up and no
  \<^verbatim>\<open>return\<close> was met the program is still running: the result is \<open>Continue\<close> with the locals.
\<close>

fun main_loop :: "configuration \<Rightarrow> main_state \<Rightarrow> frame list \<Rightarrow> (flow \<times> call list) option" where
  "main_loop cfg s [] = Some (Continue s, [])"
| "main_loop cfg s (f # fs) =
     (case main_iteration cfg s f of
        None \<Rightarrow> None
      | Some (Return r, cs) \<Rightarrow> Some (Return r, cs)
      | Some (Continue s', cs) \<Rightarrow>
          (case main_loop cfg s' fs of
             None \<Rightarrow> None
           | Some (fl, cs') \<Rightarrow> Some (fl, cs @ cs')))"

subsection \<open>Start-up (lines 45 to 97) and the whole of \<^verbatim>\<open>main\<close>\<close>

text \<open>
  What the libraries answer during start-up: the value of \<^verbatim>\<open>SDL_Init\<close>, the flags that
  \<^verbatim>\<open>IMG_Init\<close> reports, the pointer that \<^verbatim>\<open>IMG_Load\<close> returns (0 is \<^verbatim>\<open>NULL\<close>) and the value of
  \<^verbatim>\<open>ViewportInitialize\<close>.
\<close>

record environment =
  SDL_Init_result :: "32 word"
  IMG_Init_result :: "32 word"
  IMG_Load_result :: "64 word"
  ViewportInitialize_result :: "32 word"

text \<open>
  Lines 92 and 93: \<^verbatim>\<open>strcpy\<close> of the 15 characters of the prefix, then \<^verbatim>\<open>strncat\<close> of at most
  \<^verbatim>\<open>sizeof(String_Program_Title) - sizeof("Image Viewer - ")\<close> = 256 - 16 characters of the file name.
\<close>

definition String_Program_Title :: "string \<Rightarrow> string" where
  "String_Program_Title Image_File = ''Image Viewer - '' @ take (256 - 16) Image_File"

text \<open>\<^verbatim>\<open>MainExit\<close>, registered with \<^verbatim>\<open>atexit\<close> at line 74, runs on every \<^verbatim>\<open>return\<close> after that line.\<close>

definition MainExit :: "call list" where
  "MainExit = [IMG_Quit, SDL_Quit]"

definition initial_state :: main_state where
  "initial_state = \<lparr>Zoom_Factor = 1, Flipping_Mode = VIEWPORT_FLIPPING_MODE_ID_NORMAL\<rparr>"

definition argv_0 :: "string list \<Rightarrow> string option" where
  "argv_0 argv = (case argv of [] \<Rightarrow> None | name # _ \<Rightarrow> Some name)"

definition startup_calls :: "string \<Rightarrow> call list" where
  "startup_calls Image_File =
     [SDL_Init, atexit_MainExit, IMG_Init, IMG_Load Image_File,
      ViewportInitialize (String_Program_Title Image_File), SDL_FreeSurface]"

definition main :: "configuration \<Rightarrow> environment \<Rightarrow> string list \<Rightarrow> frame list \<Rightarrow> (flow \<times> call list) option" where
  "main cfg env argv frames =
     (if length argv \<noteq> 2
      then Some (Return EXIT_FAILURE, [MainDisplayProgramUsage (argv_0 argv)])
      else if argv ! 1 = ''--help''
      then Some (Return EXIT_SUCCESS, [MainDisplayProgramUsage (argv_0 argv)])
      else if SDL_Init_result env \<noteq> 0
      then Some (Return EXIT_FAILURE, [SDL_Init, printf SDL_Init_failed])
      else if IMG_Init_result env \<noteq> (IMG_INIT_JPG OR IMG_INIT_PNG OR IMG_INIT_TIF)
      then Some (Return EXIT_FAILURE,
                 [SDL_Init, atexit_MainExit, IMG_Init, printf IMG_Init_failed] @ MainExit)
      else if IMG_Load_result env = 0
      then Some (Return EXIT_FAILURE,
                 [SDL_Init, atexit_MainExit, IMG_Init, IMG_Load (argv ! 1),
                  printf (IMG_Load_failed (argv ! 1))] @ MainExit)
      else if ViewportInitialize_result env \<noteq> 0
      then Some (Return EXIT_FAILURE,
                 [SDL_Init, atexit_MainExit, IMG_Init, IMG_Load (argv ! 1),
                  ViewportInitialize (String_Program_Title (argv ! 1))] @ MainExit)
      else (case main_loop cfg initial_state frames of
              None \<Rightarrow> None
            | Some (Return r, cs) \<Rightarrow> Some (Return r, startup_calls (argv ! 1) @ cs @ MainExit)
            | Some (Continue s, cs) \<Rightarrow> Some (Continue s, startup_calls (argv ! 1) @ cs)))"

subsection \<open>Predicates used in the statements\<close>

text \<open>A quit signal: the \<^verbatim>\<open>SDL_QUIT\<close> event or a press of the \<^verbatim>\<open>q\<close> key.\<close>

definition is_quit :: "SDL_Event \<Rightarrow> bool" where
  "is_quit Event \<longleftrightarrow> Event = SDL_QUIT \<or> Event = SDL_KEYDOWN SDLK_q"

text \<open>Every library call of the start-up reports success.\<close>

definition startup_ok :: "environment \<Rightarrow> bool" where
  "startup_ok env \<longleftrightarrow>
     SDL_Init_result env = 0 \<and>
     IMG_Init_result env = (IMG_INIT_JPG OR IMG_INIT_PNG OR IMG_INIT_TIF) \<and>
     IMG_Load_result env \<noteq> 0 \<and>
     ViewportInitialize_result env = 0"

text \<open>\<open>z\<close> is one of the words 1, 2, 4, ..., \<open>2 ^ m\<close>.\<close>

definition pow2_upto :: "nat \<Rightarrow> 32 word \<Rightarrow> bool" where
  "pow2_upto m z \<longleftrightarrow> (\<exists>k\<le>m. z = 2 ^ k)"

text \<open>
  A piece of \<^verbatim>\<open>main\<close> came to an end, left a zoom factor among 1, 2, ..., \<open>2 ^ m\<close> in the
  locals, and passed only such factors to \<^verbatim>\<open>ViewportSetZoomedArea\<close>.
\<close>

definition zoom_kept :: "nat \<Rightarrow> (flow \<times> call list) option \<Rightarrow> bool" where
  "zoom_kept m r \<longleftrightarrow>
     (\<exists>fl cs. r = Some (fl, cs) \<and>
        (\<forall>s. fl = Continue s \<longrightarrow> pow2_upto m (Zoom_Factor s)) \<and>
        (\<forall>x y z. ViewportSetZoomedArea x y z \<in> set cs \<longrightarrow> pow2_upto m z))"

text \<open>
  A configuration on which the model is evaluated at concrete inputs: zoom up to 256 and a
  frame period of 16 ms.
\<close>

abbreviation sample_configuration :: configuration where
  "sample_configuration \<equiv>
     \<lparr>CONFIGURATION_VIEWPORT_MAXIMUM_ZOOM_FACTOR = 256,
      CONFIGURATION_DISPLAY_REFRESH_RATE_PERIOD = 16\<rparr>"

text \<open>An environment in which the start-up succeeds, for the same purpose.\<close>

abbreviation sample_environment :: environment where
  "sample_environment \<equiv>
     \<lparr>SDL_Init_result = 0, IMG_Init_result = 7, IMG_Load_result = 4096,
      ViewportInitialize_result = 0\<rparr>"

section \<open>Properties\<close>

subsection \<open>Powers of two as 32-bit signed values\<close>

lemma sint_pow2: "k < 31 \<Longrightarrow> sint (2 ^ k :: 32 word) = 2 ^ k"
proof -
  assume k: "k < 31"
  have "(2::int) ^ k < 2 ^ 31" using k by (intro power_strict_increasing) simp_all
  moreover have "- (2 ^ 31) \<le> (2::int) ^ k"
    by (rule order_trans [of _ 0]) simp_all
  ultimately have "signed_take_bit 31 ((2::int) ^ k) = 2 ^ k"
    by (simp add: signed_take_bit_int_eq_self)
  moreover have "(2 ^ k :: 32 word) = word_of_int (2 ^ k)" by simp
  ultimately show ?thesis by (simp only: sint_sbintrunc') simp
qed

lemma pow2_sle: "j \<le> 30 \<Longrightarrow> k \<le> 30 \<Longrightarrow> ((2 ^ j :: 32 word) \<le>s 2 ^ k) = (j \<le> k)"
  by (simp add: word_sle_eq sint_pow2)

lemma push_bit_pow2: "push_bit 1 (2 ^ j :: 32 word) = 2 ^ Suc j"
  by (simp add: push_bit_eq_mult)

lemma zoom_steps_pow2:
  "k < 30 \<Longrightarrow> j \<le> Suc k \<Longrightarrow>
   zoom_steps x y (2 ^ k) (2 ^ j) acc =
     Some (acc @ map (\<lambda>e. ViewportSetZoomedArea x y (2 ^ e)) [j..<Suc k])"
proof (induction "Suc k - j" arbitrary: j acc)
  case 0
  then have "j = Suc k" by simp
  moreover have "\<not> ((2 ^ Suc k :: 32 word) \<le>s 2 ^ k)" using 0 by (subst pow2_sle) simp_all
  ultimately show ?case
    by (subst zoom_steps.simps) (simp del: power_Suc)
next
  case (Suc n)
  then have jk: "j \<le> k" by simp
  from Suc have "n = Suc k - Suc j" by simp
  from Suc.hyps(1) [OF this Suc.prems(1)] jk
  have IH: "zoom_steps x y (2 ^ k) (2 ^ Suc j) acc' =
     Some (acc' @ map (\<lambda>e. ViewportSetZoomedArea x y (2 ^ e)) [Suc j..<Suc k])" for acc'
    by simp
  have le: "(2 ^ j :: 32 word) \<le>s 2 ^ k" using jk Suc.prems by (subst pow2_sle) simp_all
  have up: "[j..<Suc k] = j # [Suc j..<Suc k]" using jk by (simp add: upt_conv_Cons del: upt_Suc)
  show ?case
    by (subst zoom_steps.simps) (simp only: le if_True push_bit_pow2 IH up list.map append_assoc append.simps)
qed

lemma sint_eq_pow2_iff: "k < 31 \<Longrightarrow> (sint (z :: 32 word) = 2 ^ k) = (z = 2 ^ k)"
proof
  assume k: "k < 31" and "sint z = 2 ^ k"
  then have "sint z = sint (2 ^ k :: 32 word)" by (simp add: sint_pow2)
  then show "z = 2 ^ k" by (rule signed_word_eqI)
next
  assume "k < 31" and "z = 2 ^ k"
  then show "sint z = 2 ^ k" by (simp add: sint_pow2)
qed

lemma pow2_sless: "j \<le> 30 \<Longrightarrow> k \<le> 30 \<Longrightarrow> ((2 ^ j :: 32 word) <s 2 ^ k) = (j < k)"
  by (simp add: word_sless_alt sint_pow2)

lemma one_sless_pow2: "k \<le> 30 \<Longrightarrow> ((1 :: 32 word) <s 2 ^ k) = (0 < k)"
  using pow2_sless [of 0 k] by simp

lemma half_pow2: "0 < k \<Longrightarrow> k \<le> 30 \<Longrightarrow> (word_of_int (sint (2 ^ k :: 32 word) sdiv 2) :: 32 word) = 2 ^ (k - 1)"
proof -
  assume k: "0 < k" "k \<le> 30"
  then obtain j where j: "k = Suc j" by (cases k) auto
  have "sint (2 ^ k :: 32 word) sdiv 2 = (2 ^ k) sdiv 2" using k by (simp add: sint_pow2)
  also have "\<dots> = 2 ^ j" by (simp add: j signed_divide_int_def)
  finally show ?thesis by (simp add: j)
qed

lemma wheel_zoom_pow2:
  assumes "CONFIGURATION_VIEWPORT_MAXIMUM_ZOOM_FACTOR cfg = 2 ^ m" "m \<le> 30" "k \<le> m"
  shows "wheel_zoom cfg wy (2 ^ k) =
           (if 0 <s wy then (if k < m then 2 ^ Suc k else 2 ^ k) else 2 ^ (k - 1))"
proof (cases "k = 0")
  case True
  with assms show ?thesis by (simp add: wheel_zoom_def pow2_sless [of 0 m, simplified])
next
  case False
  with assms show ?thesis
    by (simp add: wheel_zoom_def pow2_sless one_sless_pow2 half_pow2 del: power_Suc) simp
qed

subsection \<open>The zoom factor stays a power of two up to the maximum\<close>

lemma pow2_upto_1: "pow2_upto m 1"
  unfolding pow2_upto_def by (rule exI [of _ 0]) simp

lemma handle_event_zoom_kept:
  assumes cfg: "CONFIGURATION_VIEWPORT_MAXIMUM_ZOOM_FACTOR cfg = 2 ^ m" and m: "m \<le> 29"
    and s: "pow2_upto m (Zoom_Factor s)"
  shows "zoom_kept m (handle_event cfg s ev)"
proof -
  from s obtain k where k: "k \<le> m" "Zoom_Factor s = 2 ^ k"
    unfolding pow2_upto_def by blast
  show ?thesis
  proof (cases ev)
    case SDL_QUIT
    then show ?thesis by (simp add: zoom_kept_def)
  next
    case (SDL_WINDOWEVENT e d1 d2)
    then show ?thesis using s by (simp add: zoom_kept_def pow2_upto_1)
  next
    case (SDL_MOUSEWHEEL wy mx my)
    have "wheel_zoom cfg wy (2 ^ k) =
           (if 0 <s wy then (if k < m then 2 ^ Suc k else 2 ^ k) else 2 ^ (k - 1))"
      using cfg m k(1) by (intro wheel_zoom_pow2) simp_all
    then have "pow2_upto m (wheel_zoom cfg wy (Zoom_Factor s))"
      using k unfolding pow2_upto_def
      by (auto simp del: power_Suc intro: exI [of _ "Suc k"] exI [of _ k] exI [of _ "k - 1"])
    with SDL_MOUSEWHEEL show ?thesis by (simp add: zoom_kept_def Let_def)
  next
    case (SDL_KEYDOWN keysym)
    then show ?thesis using s by (simp add: zoom_kept_def pow2_upto_1 Let_def)
  next
    case (SDL_MOUSEMOTION x y)
    show ?thesis
    proof (cases "k = 0")
      case True
      with SDL_MOUSEMOTION k s show ?thesis by (simp add: zoom_kept_def)
    next
      case False
      have k30: "k < 30" using k m by simp
      have "zoom_steps x y (2 ^ k) (2 ^ 0) [] =
              Some ([] @ map (\<lambda>e. ViewportSetZoomedArea x y (2 ^ e)) [0..<Suc k])"
        using k30 by (intro zoom_steps_pow2) simp_all
      then have steps: "zoom_steps x y (Zoom_Factor s) 1 [] =
              Some (map (\<lambda>e. ViewportSetZoomedArea x y (2 ^ e)) [0..<Suc k])"
        using k by simp
      have "1 <s Zoom_Factor s" using False k k30 by (simp add: one_sless_pow2)
      moreover have "pow2_upto m z"
        if "ViewportSetZoomedArea x' y' z \<in> set (map (\<lambda>e. ViewportSetZoomedArea x y (2 ^ e)) [0..<Suc k])"
        for x' y' z
      proof -
        from that obtain e where "e < Suc k" "z = 2 ^ e" by (auto simp del: upt_Suc)
        with k(1) show ?thesis unfolding pow2_upto_def by (intro exI [of _ e]) simp
      qed
      ultimately show ?thesis using SDL_MOUSEMOTION steps s
        by (simp add: zoom_kept_def del: upt_Suc)
    qed
  next
    case SDL_OTHER
    then show ?thesis using s by (simp add: zoom_kept_def)
  qed
qed

lemma poll_events_zoom_kept:
  assumes cfg: "CONFIGURATION_VIEWPORT_MAXIMUM_ZOOM_FACTOR cfg = 2 ^ m" and m: "m \<le> 29"
  shows "pow2_upto m (Zoom_Factor s) \<Longrightarrow> zoom_kept m (poll_events cfg s evs)"
proof (induction evs arbitrary: s)
  case Nil
  then show ?case by (simp add: zoom_kept_def)
next
  case (Cons ev evs)
  from handle_event_zoom_kept [OF cfg m Cons.prems, of ev]
  obtain fl cs where h: "handle_event cfg s ev = Some (fl, cs)"
    "\<forall>s. fl = Continue s \<longrightarrow> pow2_upto m (Zoom_Factor s)"
    "\<forall>x y z. ViewportSetZoomedArea x y z \<in> set cs \<longrightarrow> pow2_upto m z"
    unfolding zoom_kept_def by blast
  show ?case
  proof (cases fl)
    case (Return r)
    with h show ?thesis by (simp add: zoom_kept_def)
  next
    case (Continue s')
    with h have "pow2_upto m (Zoom_Factor s')" by simp
    from Cons.IH [OF this] obtain fl' cs' where p: "poll_events cfg s' evs = Some (fl', cs')"
      "\<forall>s. fl' = Continue s \<longrightarrow> pow2_upto m (Zoom_Factor s)"
      "\<forall>x y z. ViewportSetZoomedArea x y z \<in> set cs' \<longrightarrow> pow2_upto m z"
      unfolding zoom_kept_def by blast
    with h Continue show ?thesis by (auto simp add: zoom_kept_def)
  qed
qed

lemma main_iteration_zoom_kept:
  assumes cfg: "CONFIGURATION_VIEWPORT_MAXIMUM_ZOOM_FACTOR cfg = 2 ^ m" and m: "m \<le> 29"
    and s: "pow2_upto m (Zoom_Factor s)"
  shows "zoom_kept m (main_iteration cfg s f)"
proof -
  from poll_events_zoom_kept [OF cfg m s, of "pending f"]
  obtain fl cs where p: "poll_events cfg s (pending f) = Some (fl, cs)"
    "\<forall>s. fl = Continue s \<longrightarrow> pow2_upto m (Zoom_Factor s)"
    "\<forall>x y z. ViewportSetZoomedArea x y z \<in> set cs \<longrightarrow> pow2_upto m z"
    unfolding zoom_kept_def by blast
  then show ?thesis
    by (cases fl) (auto simp add: zoom_kept_def main_iteration_def frame_delay_def Let_def)
qed

lemma main_loop_zoom_kept:
  assumes cfg: "CONFIGURATION_VIEWPORT_MAXIMUM_ZOOM_FACTOR cfg = 2 ^ m" and m: "m \<le> 29"
  shows "pow2_upto m (Zoom_Factor s) \<Longrightarrow> zoom_kept m (main_loop cfg s frames)"
proof (induction frames arbitrary: s)
  case Nil
  then show ?case by (simp add: zoom_kept_def)
next
  case (Cons f fs)
  from main_iteration_zoom_kept [OF cfg m Cons.prems, of f]
  obtain fl cs where h: "main_iteration cfg s f = Some (fl, cs)"
    "\<forall>s. fl = Continue s \<longrightarrow> pow2_upto m (Zoom_Factor s)"
    "\<forall>x y z. ViewportSetZoomedArea x y z \<in> set cs \<longrightarrow> pow2_upto m z"
    unfolding zoom_kept_def by blast
  show ?case
  proof (cases fl)
    case (Return r)
    with h show ?thesis by (simp add: zoom_kept_def)
  next
    case (Continue s')
    with h have "pow2_upto m (Zoom_Factor s')" by simp
    from Cons.IH [OF this] obtain fl' cs' where p: "main_loop cfg s' fs = Some (fl', cs')"
      "\<forall>s. fl' = Continue s \<longrightarrow> pow2_upto m (Zoom_Factor s)"
      "\<forall>x y z. ViewportSetZoomedArea x y z \<in> set cs' \<longrightarrow> pow2_upto m z"
      unfolding zoom_kept_def by blast
    with h Continue show ?thesis by (auto simp add: zoom_kept_def)
  qed
qed

subsection \<open>Which calls an event can make\<close>

lemma zoom_steps_calls:
  assumes "zoom_steps x y zoom i acc = Some cs"
  shows "\<forall>c\<in>set cs. c \<in> set acc \<or> (\<exists>j. c = ViewportSetZoomedArea x y j)"
proof (rule zoom_steps.raw_induct
    [where P = "\<lambda>x y zoom i acc cs. \<forall>c\<in>set cs. c \<in> set acc \<or> (\<exists>j. c = ViewportSetZoomedArea x y j)"
       and xa = "((((x, y), zoom), i), acc)" and ya = cs, simplified])
  show "zoom_steps x y zoom i acc = Some cs" by (fact assms)
next
  fix zs :: "32 word \<Rightarrow> 32 word \<Rightarrow> 32 word \<Rightarrow> 32 word \<Rightarrow> call list \<Rightarrow> call list option"
  fix x y zoom i calls xa
  assume IH: "\<And>y zoom i calls b ya. zs y zoom i calls b = Some ya \<Longrightarrow>
      \<forall>c\<in>set ya. c \<in> set b \<or> (\<exists>j. c = ViewportSetZoomedArea y zoom j)"
    and step: "(if i \<le>s zoom then zs x y zoom (push_bit 1 i) (calls @ [ViewportSetZoomedArea x y i])
               else Some calls) = Some xa"
  show "\<forall>c\<in>set xa. c \<in> set calls \<or> (\<exists>j. c = ViewportSetZoomedArea x y j)"
  proof (cases "i \<le>s zoom")
    case True
    with step have "zs x y zoom (push_bit 1 i) (calls @ [ViewportSetZoomedArea x y i]) = Some xa"
      by simp
    from IH [OF this] show ?thesis by auto
  next
    case False
    with step show ?thesis by simp
  qed
qed

subsection \<open>Carrying a property of the locals and of the calls through the loops\<close>

lemma handle_event_calls:
  assumes "handle_event cfg s ev = Some (fl, cs)"
  shows "\<forall>c\<in>set cs. (\<exists>w h. c = ViewportSetDimensions w h) \<or>
                    (\<exists>x y z. c = ViewportSetZoomedArea x y z) \<or>
                    c = ViewportSetFlippingMode (next_flipping_mode (Flipping_Mode s)) \<or>
                    c = ViewportScaleImage"
proof (cases ev)
  case (SDL_MOUSEMOTION x y)
  show ?thesis
  proof (cases "1 <s Zoom_Factor s")
    case True
    with assms SDL_MOUSEMOTION have "zoom_steps x y (Zoom_Factor s) 1 [] = Some cs"
      by (simp split: option.splits)
    from zoom_steps_calls [OF this] show ?thesis by auto
  next
    case False
    with assms SDL_MOUSEMOTION show ?thesis by simp
  qed
qed (use assms in \<open>auto simp add: Let_def split: if_splits\<close>)

lemma poll_events_invariant:
  assumes step: "\<And>s ev fl cs. I s \<Longrightarrow> handle_event cfg s ev = Some (fl, cs) \<Longrightarrow>
                   (\<forall>c\<in>set cs. P c) \<and> (\<forall>s'. fl = Continue s' \<longrightarrow> I s')"
  shows "I s \<Longrightarrow> poll_events cfg s evs = Some (fl, cs) \<Longrightarrow>
         (\<forall>c\<in>set cs. P c) \<and> (\<forall>s'. fl = Continue s' \<longrightarrow> I s')"
proof (induction evs arbitrary: s cs)
  case Nil
  then show ?case by auto
next
  case (Cons ev evs)
  from Cons.prems(2) obtain fl1 cs1 where h: "handle_event cfg s ev = Some (fl1, cs1)"
    by (auto split: option.splits)
  note h1 = step [OF Cons.prems(1) h]
  show ?case
  proof (cases fl1)
    case (Return r)
    with Cons.prems(2) h h1 show ?thesis by auto
  next
    case (Continue s1)
    with Cons.prems(2) h obtain cs2 where
      p: "poll_events cfg s1 evs = Some (fl, cs2)" and cs: "cs = cs1 @ cs2"
      by (auto split: option.splits)
    from h1 Continue have "I s1" by simp
    from Cons.IH [OF this p] h1 cs show ?thesis by auto
  qed
qed

lemma main_iteration_invariant:
  assumes step: "\<And>s ev fl cs. I s \<Longrightarrow> handle_event cfg s ev = Some (fl, cs) \<Longrightarrow>
                   (\<forall>c\<in>set cs. P c) \<and> (\<forall>s'. fl = Continue s' \<longrightarrow> I s')"
    and draw: "P ViewportDrawImage" and delay: "\<And>d. P (SDL_Delay d)"
    and s: "I s" and run: "main_iteration cfg s f = Some (fl, cs)"
  shows "(\<forall>c\<in>set cs. P c) \<and> (\<forall>s'. fl = Continue s' \<longrightarrow> I s')"
proof -
  from run obtain fl1 cs1 where p: "poll_events cfg s (pending f) = Some (fl1, cs1)"
    by (auto simp add: main_iteration_def split: option.splits)
  note p1 = poll_events_invariant [of I cfg P, OF step s p]
  show ?thesis
  proof (cases fl1)
    case (Return r)
    with run p p1 show ?thesis by (auto simp add: main_iteration_def)
  next
    case (Continue s1)
    with run p p1 draw delay show ?thesis
      by (auto simp add: main_iteration_def frame_delay_def Let_def)
  qed
qed

lemma main_loop_invariant:
  assumes step: "\<And>s ev fl cs. I s \<Longrightarrow> handle_event cfg s ev = Some (fl, cs) \<Longrightarrow>
                   (\<forall>c\<in>set cs. P c) \<and> (\<forall>s'. fl = Continue s' \<longrightarrow> I s')"
    and draw: "P ViewportDrawImage" and delay: "\<And>d. P (SDL_Delay d)"
  shows "I s \<Longrightarrow> main_loop cfg s frames = Some (fl, cs) \<Longrightarrow>
         (\<forall>c\<in>set cs. P c) \<and> (\<forall>s'. fl = Continue s' \<longrightarrow> I s')"
proof (induction frames arbitrary: s cs)
  case Nil
  then show ?case by auto
next
  case (Cons f fs)
  from Cons.prems(2) obtain fl1 cs1 where h: "main_iteration cfg s f = Some (fl1, cs1)"
    by (auto split: option.splits)
  note h1 = main_iteration_invariant [of I cfg P, OF step draw delay Cons.prems(1) h]
  show ?case
  proof (cases fl1)
    case (Return r)
    with Cons.prems(2) h h1 show ?thesis by auto
  next
    case (Continue s1)
    with Cons.prems(2) h obtain cs2 where
      p: "main_loop cfg s1 fs = Some (fl, cs2)" and cs: "cs = cs1 @ cs2"
      by (auto split: option.splits)
    from h1 Continue have "I s1" by simp
    from Cons.IH [OF this p] h1 cs show ?thesis by auto
  qed
qed

subsection \<open>The flipping mode\<close>

lemma next_flipping_mode_less: "next_flipping_mode m < VIEWPORT_FLIPPING_MODE_IDS_COUNT"
  by (simp add: next_flipping_mode_def Let_def VIEWPORT_FLIPPING_MODE_IDS_COUNT_def not_le)

lemma flipping_mode_cases:
  assumes "(m :: 32 word) < 4"
  shows "m = 0 \<or> m = 1 \<or> m = 2 \<or> m = 3"
proof -
  from assms have "unat m < 4" by (simp add: word_less_nat_alt)
  then have "unat m = 0 \<or> unat m = 1 \<or> unat m = 2 \<or> unat m = 3" by arith
  then have "of_nat (unat m) = (0 :: 32 word) \<or> of_nat (unat m) = (1 :: 32 word) \<or>
             of_nat (unat m) = (2 :: 32 word) \<or> of_nat (unat m) = (3 :: 32 word)"
    by (elim disjE) simp_all
  then show ?thesis by simp
qed

lemma next_flipping_mode_four:
  assumes "m < VIEWPORT_FLIPPING_MODE_IDS_COUNT"
  shows "next_flipping_mode (next_flipping_mode (next_flipping_mode (next_flipping_mode m))) = m"
proof -
  from assms have "m = 0 \<or> m = 1 \<or> m = 2 \<or> m = 3"
    by (intro flipping_mode_cases) (simp add: VIEWPORT_FLIPPING_MODE_IDS_COUNT_def)
  then show ?thesis
    by (elim disjE)
      (simp_all add: next_flipping_mode_def Let_def VIEWPORT_FLIPPING_MODE_IDS_COUNT_def
         word_le_nat_alt)
qed

lemma handle_event_flipping_mode:
  assumes "handle_event cfg s ev = Some (Continue s', cs)"
  shows "Flipping_Mode s' = Flipping_Mode s \<or>
         Flipping_Mode s' = next_flipping_mode (Flipping_Mode s)"
  using assms by (cases ev) (auto simp add: Let_def split: if_splits option.splits)

subsection \<open>Doubling and halving a C \<^verbatim>\<open>int\<close> without overflow\<close>

lemma sint_double:
  assumes "0 \<le> sint (z :: 32 word)" "sint z < 2 ^ 30"
  shows "sint (z * 2) = 2 * sint z"
proof -
  have "sint (z * 2) = signed_take_bit 31 (sint z * sint (2 :: 32 word))"
    by (simp add: sint_word_ariths)
  also have "sint (2 :: 32 word) = 2" by simp
  also have "signed_take_bit 31 (sint z * 2) = sint z * 2"
    using assms by (intro signed_take_bit_int_eq_self) simp_all
  finally show ?thesis by simp
qed

lemma sint_half:
  assumes "0 \<le> sint (z :: 32 word)"
  shows "sint (word_of_int (sint z sdiv 2) :: 32 word) = sint z div 2"
proof -
  have sd: "sint z sdiv 2 = sint z div 2"
    using assms by (simp add: signed_divide_int_def sgn_if)
  have "sint z < 2 ^ 31" using sint_lt [of z] by simp
  then have "sint z div 2 < 2 ^ 31" by simp
  moreover have "0 \<le> sint z div 2" using assms by simp
  ultimately have "signed_take_bit 31 (sint z div 2) = sint z div 2"
    by (intro signed_take_bit_int_eq_self) simp_all
  then show ?thesis by (simp add: sd sint_sbintrunc')
qed

lemma pow2_upto_sint:
  assumes "m \<le> 30"
  shows "pow2_upto m z = (\<exists>k\<le>m. sint z = 2 ^ k)"
proof -
  have "(sint z = 2 ^ k) = (z = 2 ^ k)" if "k \<le> m" for k
    using that assms by (intro sint_eq_pow2_iff) simp
  then show ?thesis unfolding pow2_upto_def by auto
qed

subsection \<open>Quit events and the flow of control\<close>

lemma handle_event_flow:
  assumes "handle_event cfg s ev = Some (fl, cs)"
  shows "if is_quit ev then fl = Return EXIT_SUCCESS \<and> cs = [] else (\<exists>s'. fl = Continue s')"
  using assms
proof (cases ev)
  case (SDL_KEYDOWN keysym)
  have "SDLK_f \<noteq> SDLK_q" by (simp add: SDLK_f_def SDLK_q_def)
  with assms SDL_KEYDOWN show ?thesis
    by (auto simp add: is_quit_def Let_def split: if_splits)
qed (use assms in \<open>auto simp add: is_quit_def Let_def split: if_splits option.splits\<close>)

lemma poll_events_append:
  "poll_events cfg s (evs @ evs') =
     (case poll_events cfg s evs of
        None \<Rightarrow> None
      | Some (Return r, cs) \<Rightarrow> Some (Return r, cs)
      | Some (Continue s', cs) \<Rightarrow>
          (case poll_events cfg s' evs' of
             None \<Rightarrow> None
           | Some (fl, cs') \<Rightarrow> Some (fl, cs @ cs')))"
proof (induction evs arbitrary: s)
  case Nil
  show ?case by (simp split: option.splits prod.splits)
next
  case (Cons ev evs)
  show ?case
    by (simp add: Cons.IH split: option.splits prod.splits flow.splits)
qed

lemma poll_events_flow:
  "poll_events cfg s evs = Some (fl, cs) \<Longrightarrow>
   (if \<exists>ev\<in>set evs. is_quit ev then fl = Return EXIT_SUCCESS else (\<exists>s'. fl = Continue s'))"
proof (induction evs arbitrary: s cs)
  case Nil
  then show ?case by auto
next
  case (Cons ev evs)
  from Cons.prems obtain fl1 cs1 where h: "handle_event cfg s ev = Some (fl1, cs1)"
    by (auto split: option.splits)
  note h1 = handle_event_flow [OF h]
  show ?case
  proof (cases "is_quit ev")
    case True
    with h h1 Cons.prems show ?thesis by auto
  next
    case False
    with h1 obtain s1 where fl1: "fl1 = Continue s1" by auto
    with Cons.prems h obtain cs2 where "poll_events cfg s1 evs = Some (fl, cs2)"
      by (auto split: option.splits)
    from Cons.IH [OF this] False show ?thesis by simp
  qed
qed

lemma poll_events_no_draw:
  assumes "poll_events cfg s evs = Some (fl, cs)"
  shows "\<forall>c\<in>set cs. c \<noteq> ViewportDrawImage \<and> (\<forall>d. c \<noteq> SDL_Delay d)"
proof -
  have step: "(\<forall>c\<in>set cs. c \<noteq> ViewportDrawImage \<and> (\<forall>d. c \<noteq> SDL_Delay d)) \<and>
              (\<forall>s'. fl = Continue s' \<longrightarrow> True)"
    if "True" and h: "handle_event cfg s ev = Some (fl, cs)" for s ev fl cs
    using handle_event_calls [OF h] by fastforce
  from poll_events_invariant [of "\<lambda>s. True" cfg
      "\<lambda>c. c \<noteq> ViewportDrawImage \<and> (\<forall>d. c \<noteq> SDL_Delay d)", OF step TrueI assms]
  show ?thesis by simp
qed

lemma main_iteration_flow:
  assumes "main_iteration cfg s f = Some (fl, cs)"
  shows "if \<exists>ev\<in>set (pending f). is_quit ev then fl = Return EXIT_SUCCESS
         else (\<exists>s'. fl = Continue s')"
proof -
  from assms obtain fl1 cs1 where p: "poll_events cfg s (pending f) = Some (fl1, cs1)"
    by (auto simp add: main_iteration_def split: option.splits)
  from poll_events_flow [OF p] assms p show ?thesis
    by (cases fl1) (auto simp add: main_iteration_def split: if_splits)
qed

lemma main_loop_flow:
  "main_loop cfg s frames = Some (fl, cs) \<Longrightarrow>
   (if \<exists>f\<in>set frames. \<exists>ev\<in>set (pending f). is_quit ev then fl = Return EXIT_SUCCESS
    else (\<exists>s'. fl = Continue s'))"
proof (induction frames arbitrary: s cs)
  case Nil
  then show ?case by auto
next
  case (Cons f fs)
  from Cons.prems obtain fl1 cs1 where h: "main_iteration cfg s f = Some (fl1, cs1)"
    by (auto split: option.splits)
  note h1 = main_iteration_flow [OF h]
  show ?case
  proof (cases "\<exists>ev\<in>set (pending f). is_quit ev")
    case True
    with h h1 Cons.prems show ?thesis by auto
  next
    case False
    with h1 obtain s1 where fl1: "fl1 = Continue s1" by auto
    with Cons.prems h obtain cs2 where "main_loop cfg s1 fs = Some (fl, cs2)"
      by (auto split: option.splits)
    from Cons.IH [OF this] False show ?thesis by simp
  qed
qed

section \<open>The claims\<close>

text \<open>
  C1. A mouse-motion event that arrives while the zoom factor is \<open>2 ^ k\<close> with \<open>k \<ge> 1\<close> makes
  the shell call \<^verbatim>\<open>ViewportSetZoomedArea\<close> once for each of the factors 1, 2, 4, ..., \<open>2 ^ k\<close>, in
  this order and each time with the coordinates of the event; when the zoom factor is 1 the
  event makes no call at all. The locals are left as they were. The bound \<open>k < 30\<close> keeps the
  loop counter inside a C \<^verbatim>\<open>int\<close>.
\<close>

theorem mouse_motion_zoom_steps:
  assumes "sint (Zoom_Factor s) = 2 ^ k" and "k < 30"
  shows "handle_event cfg s (SDL_MOUSEMOTION x y) =
           Some (Continue s,
                 if k = 0 then []
                 else map (\<lambda>e. ViewportSetZoomedArea x y (2 ^ e)) [0..<Suc k])"
proof -
  from assms have z: "Zoom_Factor s = 2 ^ k" by (simp add: sint_eq_pow2_iff)
  show ?thesis
  proof (cases "k = 0")
    case True
    with z show ?thesis by simp
  next
    case False
    have "zoom_steps x y (2 ^ k) (2 ^ 0) [] =
            Some ([] @ map (\<lambda>e. ViewportSetZoomedArea x y (2 ^ e)) [0..<Suc k])"
      using assms(2) by (intro zoom_steps_pow2) simp_all
    moreover have "1 <s Zoom_Factor s" using False z assms(2) by (simp add: one_sless_pow2)
    ultimately show ?thesis using z False by (simp del: upt_Suc)
  qed
qed

theorem mouse_motion_zoom_steps_witness:
  "sint (Zoom_Factor \<lparr>Zoom_Factor = 4, Flipping_Mode = 0\<rparr>) = 2 ^ 2 \<and> (2::nat) < 30 \<and>
   handle_event sample_configuration \<lparr>Zoom_Factor = 4, Flipping_Mode = 0\<rparr>
       (SDL_MOUSEMOTION 10 20) =
     Some (Continue \<lparr>Zoom_Factor = 4, Flipping_Mode = 0\<rparr>,
           [ViewportSetZoomedArea 10 20 1, ViewportSetZoomedArea 10 20 2,
            ViewportSetZoomedArea 10 20 4])"
  using mouse_motion_zoom_steps
      [of "\<lparr>Zoom_Factor = 4, Flipping_Mode = 0\<rparr>" 2 sample_configuration 10 20]
  by (simp add: upt_rec)

text \<open>
  C2. A window event of kind \<^verbatim>\<open>SDL_WINDOWEVENT_SIZE_CHANGED\<close> calls \<^verbatim>\<open>ViewportSetDimensions\<close>,
  a press of \<^verbatim>\<open>f\<close> calls \<^verbatim>\<open>ViewportSetFlippingMode\<close> and a press of \<^verbatim>\<open>s\<close> calls
  \<^verbatim>\<open>ViewportScaleImage\<close>; after each of the three the zoom factor of the shell is 1, whatever
  it was before. Conversely, whenever the handling of an event has called one of these three
  operations, the zoom factor is 1 afterwards.
\<close>

theorem reset_zoom_events:
  "(\<exists>s'. handle_event cfg s (SDL_WINDOWEVENT SDL_WINDOWEVENT_SIZE_CHANGED w h) =
            Some (Continue s', [ViewportSetDimensions w h]) \<and> Zoom_Factor s' = 1) \<and>
   (\<exists>s' mode. handle_event cfg s (SDL_KEYDOWN SDLK_f) =
            Some (Continue s', [ViewportSetFlippingMode mode]) \<and> Zoom_Factor s' = 1) \<and>
   (\<exists>s'. handle_event cfg s (SDL_KEYDOWN SDLK_s) =
            Some (Continue s', [ViewportScaleImage]) \<and> Zoom_Factor s' = 1) \<and>
   (handle_event cfg s Event = Some (Continue s', cs) \<and>
    ((\<exists>w h. ViewportSetDimensions w h \<in> set cs) \<or>
     (\<exists>mode. ViewportSetFlippingMode mode \<in> set cs) \<or>
     ViewportScaleImage \<in> set cs) \<longrightarrow>
      Zoom_Factor s' = 1)"
proof (intro conjI impI)
  show "\<exists>s'. handle_event cfg s (SDL_WINDOWEVENT SDL_WINDOWEVENT_SIZE_CHANGED w h) =
            Some (Continue s', [ViewportSetDimensions w h]) \<and> Zoom_Factor s' = 1"
    by simp
  show "\<exists>s' mode. handle_event cfg s (SDL_KEYDOWN SDLK_f) =
            Some (Continue s', [ViewportSetFlippingMode mode]) \<and> Zoom_Factor s' = 1"
    by (simp add: Let_def)
  show "\<exists>s'. handle_event cfg s (SDL_KEYDOWN SDLK_s) =
            Some (Continue s', [ViewportScaleImage]) \<and> Zoom_Factor s' = 1"
    by (simp add: SDLK_f_def SDLK_q_def SDLK_s_def)
next
  assume a: "handle_event cfg s Event = Some (Continue s', cs) \<and>
    ((\<exists>w h. ViewportSetDimensions w h \<in> set cs) \<or>
     (\<exists>mode. ViewportSetFlippingMode mode \<in> set cs) \<or>
     ViewportScaleImage \<in> set cs)"
  show "Zoom_Factor s' = 1"
  proof (cases Event)
    case (SDL_MOUSEMOTION x y)
    show ?thesis
    proof (cases "1 <s Zoom_Factor s")
      case True
      with a SDL_MOUSEMOTION have "zoom_steps x y (Zoom_Factor s) 1 [] = Some cs"
        by (simp split: option.splits)
      from zoom_steps_calls [OF this] a show ?thesis by auto
    next
      case False
      with a SDL_MOUSEMOTION show ?thesis by auto
    qed
  qed (use a in \<open>auto simp add: Let_def split: if_splits\<close>)
qed

theorem reset_zoom_events_witness:
  "handle_event sample_configuration \<lparr>Zoom_Factor = 8, Flipping_Mode = 3\<rparr> (SDL_KEYDOWN SDLK_f) =
     Some (Continue \<lparr>Zoom_Factor = 1, Flipping_Mode = 0\<rparr>, [ViewportSetFlippingMode 0]) \<and>
   ViewportSetFlippingMode 0 \<in> set [ViewportSetFlippingMode 0] \<and>
   Zoom_Factor \<lparr>Zoom_Factor = 1, Flipping_Mode = 0\<rparr> = 1"
  using reset_zoom_events
      [of sample_configuration "\<lparr>Zoom_Factor = 8, Flipping_Mode = 3\<rparr>" _ _ "SDL_KEYDOWN SDLK_f"
          "\<lparr>Zoom_Factor = 1, Flipping_Mode = 0\<rparr>" "[ViewportSetFlippingMode 0]"]
  by (simp add: Let_def next_flipping_mode_def VIEWPORT_FLIPPING_MODE_IDS_COUNT_def)

text \<open>
  C3. Let the configured maximum be a power of two \<open>2 ^ m\<close> with \<open>m \<le> 29\<close>. The zoom factor
  starts at 1. Whatever frames of events the main loop is given, it works through them without
  hanging, and afterwards the zoom factor in the locals, and every factor that was passed to
  \<^verbatim>\<open>ViewportSetZoomedArea\<close> on the way, is a power of two between 1 and the maximum.
\<close>

theorem zoom_factor_power_of_two:
  assumes "sint (CONFIGURATION_VIEWPORT_MAXIMUM_ZOOM_FACTOR cfg) = 2 ^ m" and "m \<le> 29"
  shows "Zoom_Factor initial_state = 1 \<and>
         (\<exists>fl cs. main_loop cfg initial_state frames = Some (fl, cs) \<and>
            (\<forall>s. fl = Continue s \<longrightarrow>
               (\<exists>k\<le>m. sint (Zoom_Factor s) = 2 ^ k) \<and>
               1 \<le> sint (Zoom_Factor s) \<and>
               sint (Zoom_Factor s) \<le> sint (CONFIGURATION_VIEWPORT_MAXIMUM_ZOOM_FACTOR cfg)) \<and>
            (\<forall>x y z. ViewportSetZoomedArea x y z \<in> set cs \<longrightarrow>
               (\<exists>k\<le>m. sint z = 2 ^ k) \<and>
               1 \<le> sint z \<and>
               sint z \<le> sint (CONFIGURATION_VIEWPORT_MAXIMUM_ZOOM_FACTOR cfg)))"
proof -
  have m30: "m \<le> 30" and m31: "m < 31" using assms(2) by simp_all
  have cfg: "CONFIGURATION_VIEWPORT_MAXIMUM_ZOOM_FACTOR cfg = 2 ^ m"
    using assms(1) m31 by (simp add: sint_eq_pow2_iff)
  have range: "(\<exists>k\<le>m. sint z = 2 ^ k) \<and> 1 \<le> sint z \<and>
               sint z \<le> sint (CONFIGURATION_VIEWPORT_MAXIMUM_ZOOM_FACTOR cfg)"
    if "pow2_upto m z" for z
  proof -
    from that obtain k where k: "k \<le> m" "sint z = 2 ^ k"
      by (auto simp add: pow2_upto_sint [OF m30])
    have "(2::int) ^ k \<le> 2 ^ m" using k(1) by (intro power_increasing) simp_all
    moreover have "(1::int) \<le> 2 ^ k" by simp
    ultimately show ?thesis using k assms(1) by auto
  qed
  have "pow2_upto m (Zoom_Factor initial_state)"
    by (simp add: initial_state_def pow2_upto_1)
  from main_loop_zoom_kept [OF cfg assms(2) this, of frames]
  obtain fl cs where run: "main_loop cfg initial_state frames = Some (fl, cs)"
    and st: "\<forall>s. fl = Continue s \<longrightarrow> pow2_upto m (Zoom_Factor s)"
    and calls: "\<forall>x y z. ViewportSetZoomedArea x y z \<in> set cs \<longrightarrow> pow2_upto m z"
    unfolding zoom_kept_def by blast
  from st range have st': "\<forall>s. fl = Continue s \<longrightarrow>
               (\<exists>k\<le>m. sint (Zoom_Factor s) = 2 ^ k) \<and>
               1 \<le> sint (Zoom_Factor s) \<and>
               sint (Zoom_Factor s) \<le> sint (CONFIGURATION_VIEWPORT_MAXIMUM_ZOOM_FACTOR cfg)"
    by blast
  from calls range have calls': "\<forall>x y z. ViewportSetZoomedArea x y z \<in> set cs \<longrightarrow>
               (\<exists>k\<le>m. sint z = 2 ^ k) \<and>
               1 \<le> sint z \<and>
               sint z \<le> sint (CONFIGURATION_VIEWPORT_MAXIMUM_ZOOM_FACTOR cfg)"
    by blast
  have "Zoom_Factor initial_state = 1" by (simp add: initial_state_def)
  with run st' calls' show ?thesis by blast
qed

theorem zoom_factor_power_of_two_witness:
  "sint (CONFIGURATION_VIEWPORT_MAXIMUM_ZOOM_FACTOR sample_configuration) = 2 ^ 8 \<and>
   (8::nat) \<le> 29 \<and>
   main_loop sample_configuration initial_state
       [\<lparr>pending = [SDL_MOUSEWHEEL 1 30 40, SDL_MOUSEWHEEL 1 30 40, SDL_MOUSEMOTION 31 41],
         Frame_Starting_Time = 0, ticks_after_draw = 20\<rparr>] =
     Some (Continue \<lparr>Zoom_Factor = 4, Flipping_Mode = 0\<rparr>,
           [ViewportSetZoomedArea 30 40 2, ViewportSetZoomedArea 30 40 4,
            ViewportSetZoomedArea 31 41 1, ViewportSetZoomedArea 31 41 2,
            ViewportSetZoomedArea 31 41 4, ViewportDrawImage]) \<and>
   (\<exists>fl cs. main_loop sample_configuration initial_state
       [\<lparr>pending = [SDL_MOUSEWHEEL 1 30 40, SDL_MOUSEWHEEL 1 30 40, SDL_MOUSEMOTION 31 41],
         Frame_Starting_Time = 0, ticks_after_draw = 20\<rparr>] = Some (fl, cs))"
  using zoom_factor_power_of_two
      [of sample_configuration 8
          "[\<lparr>pending = [SDL_MOUSEWHEEL 1 30 40, SDL_MOUSEWHEEL 1 30 40, SDL_MOUSEMOTION 31 41],
             Frame_Starting_Time = 0, ticks_after_draw = 20\<rparr>]"]
  by (simp add: main_iteration_def frame_delay_def initial_state_def Let_def wheel_zoom_def
        VIEWPORT_FLIPPING_MODE_ID_NORMAL_def word_sless_alt word_sle_eq zoom_steps.simps)

text \<open>
  C4. Take a zoom factor between 1 and the maximum, the maximum being at most \<open>2 ^ 30\<close> so
  that doubling stays inside a C \<^verbatim>\<open>int\<close>. A wheel event with \<^verbatim>\<open>wheel.y > 0\<close> (in the words of the
  source, the wheel rotated toward the user) doubles the factor, and leaves it alone when it
  already equals the maximum. Any other wheel event (the wheel rotated away from the user)
  halves it, and leaves it alone when it is 1. Either way the event then makes one call of
  \<^verbatim>\<open>ViewportSetZoomedArea\<close> with the cursor position and the resulting factor.
\<close>

theorem wheel_zoom_transitions:
  assumes "1 \<le> sint (Zoom_Factor s)"
    and "sint (Zoom_Factor s) \<le> sint (CONFIGURATION_VIEWPORT_MAXIMUM_ZOOM_FACTOR cfg)"
    and "sint (CONFIGURATION_VIEWPORT_MAXIMUM_ZOOM_FACTOR cfg) \<le> 2 ^ 30"
  shows "\<exists>z. handle_event cfg s (SDL_MOUSEWHEEL wy Mouse_X Mouse_Y) =
               Some (Continue (s\<lparr>Zoom_Factor := z\<rparr>), [ViewportSetZoomedArea Mouse_X Mouse_Y z]) \<and>
             sint z =
               (if 0 <s wy
                then (if sint (Zoom_Factor s) = sint (CONFIGURATION_VIEWPORT_MAXIMUM_ZOOM_FACTOR cfg)
                      then sint (Zoom_Factor s) else 2 * sint (Zoom_Factor s))
                else (if sint (Zoom_Factor s) = 1 then 1 else sint (Zoom_Factor s) div 2))"
proof -
  have up: "sint (Zoom_Factor s * 2) = 2 * sint (Zoom_Factor s)"
    if "sint (Zoom_Factor s) < sint (CONFIGURATION_VIEWPORT_MAXIMUM_ZOOM_FACTOR cfg)"
    using assms that by (intro sint_double) simp_all
  have down: "sint (word_of_int (sint (Zoom_Factor s) sdiv 2) :: 32 word) = sint (Zoom_Factor s) div 2"
    using assms by (intro sint_half) simp
  have one: "(1 <s Zoom_Factor s) = (sint (Zoom_Factor s) \<noteq> 1)"
    using assms(1) by (auto simp add: word_sless_alt)
  have "sint (wheel_zoom cfg wy (Zoom_Factor s)) =
               (if 0 <s wy
                then (if sint (Zoom_Factor s) = sint (CONFIGURATION_VIEWPORT_MAXIMUM_ZOOM_FACTOR cfg)
                      then sint (Zoom_Factor s) else 2 * sint (Zoom_Factor s))
                else (if sint (Zoom_Factor s) = 1 then 1 else sint (Zoom_Factor s) div 2))"
    using assms(2) up down one by (auto simp add: wheel_zoom_def word_sless_alt)
  then show ?thesis by (simp add: Let_def)
qed

theorem wheel_zoom_transitions_witness:
  "1 \<le> sint (Zoom_Factor \<lparr>Zoom_Factor = 8, Flipping_Mode = 0\<rparr>) \<and>
   sint (Zoom_Factor \<lparr>Zoom_Factor = 8, Flipping_Mode = 0\<rparr>) \<le>
     sint (CONFIGURATION_VIEWPORT_MAXIMUM_ZOOM_FACTOR sample_configuration) \<and>
   sint (CONFIGURATION_VIEWPORT_MAXIMUM_ZOOM_FACTOR sample_configuration) \<le> 2 ^ 30 \<and>
   (\<exists>z. handle_event sample_configuration \<lparr>Zoom_Factor = 8, Flipping_Mode = 0\<rparr>
            (SDL_MOUSEWHEEL 1 30 40) =
          Some (Continue \<lparr>Zoom_Factor = z, Flipping_Mode = 0\<rparr>, [ViewportSetZoomedArea 30 40 z]) \<and>
          sint z = 16) \<and>
   (\<exists>z. handle_event sample_configuration \<lparr>Zoom_Factor = 8, Flipping_Mode = 0\<rparr>
            (SDL_MOUSEWHEEL (- 1) 30 40) =
          Some (Continue \<lparr>Zoom_Factor = z, Flipping_Mode = 0\<rparr>, [ViewportSetZoomedArea 30 40 z]) \<and>
          sint z = 4)"
  using wheel_zoom_transitions
      [of "\<lparr>Zoom_Factor = 8, Flipping_Mode = 0\<rparr>" sample_configuration 1 30 40]
    wheel_zoom_transitions
      [of "\<lparr>Zoom_Factor = 8, Flipping_Mode = 0\<rparr>" sample_configuration "- 1" 30 40]
  by (simp add: word_sless_alt)

text \<open>
  C5. A press of \<^verbatim>\<open>f\<close> moves the flipping mode one step along the cycle normal,
  horizontal, vertical, horizontal and vertical, and back to normal, and hands the new mode to
  \<^verbatim>\<open>ViewportSetFlippingMode\<close>. Four presses in a row, starting from any of the four modes, bring
  the mode back to where it was. In every run of the main loop from the initial state, each
  mode handed to \<^verbatim>\<open>ViewportSetFlippingMode\<close>, and the mode kept in the locals, is one of the four.
\<close>

theorem flip_cycle:
  "next_flipping_mode VIEWPORT_FLIPPING_MODE_ID_NORMAL = VIEWPORT_FLIPPING_MODE_ID_HORIZONTAL \<and>
   next_flipping_mode VIEWPORT_FLIPPING_MODE_ID_HORIZONTAL = VIEWPORT_FLIPPING_MODE_ID_VERTICAL \<and>
   next_flipping_mode VIEWPORT_FLIPPING_MODE_ID_VERTICAL =
     VIEWPORT_FLIPPING_MODE_ID_HORIZONTAL_AND_VERTICAL \<and>
   next_flipping_mode VIEWPORT_FLIPPING_MODE_ID_HORIZONTAL_AND_VERTICAL =
     VIEWPORT_FLIPPING_MODE_ID_NORMAL \<and>
   handle_event cfg s (SDL_KEYDOWN SDLK_f) =
     Some (Continue (s\<lparr>Flipping_Mode := next_flipping_mode (Flipping_Mode s), Zoom_Factor := 1\<rparr>),
           [ViewportSetFlippingMode (next_flipping_mode (Flipping_Mode s))]) \<and>
   (Flipping_Mode s < VIEWPORT_FLIPPING_MODE_IDS_COUNT \<longrightarrow>
      (\<exists>s' cs. poll_events cfg s
                  [SDL_KEYDOWN SDLK_f, SDL_KEYDOWN SDLK_f, SDL_KEYDOWN SDLK_f, SDL_KEYDOWN SDLK_f] =
                Some (Continue s', cs) \<and>
              Flipping_Mode s' = Flipping_Mode s)) \<and>
   (main_loop cfg initial_state frames = Some (fl, cs) \<longrightarrow>
      (\<forall>m. ViewportSetFlippingMode m \<in> set cs \<longrightarrow> m < VIEWPORT_FLIPPING_MODE_IDS_COUNT) \<and>
      (\<forall>s'. fl = Continue s' \<longrightarrow> Flipping_Mode s' < VIEWPORT_FLIPPING_MODE_IDS_COUNT))"
proof -
  have names:
    "next_flipping_mode VIEWPORT_FLIPPING_MODE_ID_NORMAL = VIEWPORT_FLIPPING_MODE_ID_HORIZONTAL"
    "next_flipping_mode VIEWPORT_FLIPPING_MODE_ID_HORIZONTAL = VIEWPORT_FLIPPING_MODE_ID_VERTICAL"
    "next_flipping_mode VIEWPORT_FLIPPING_MODE_ID_VERTICAL =
       VIEWPORT_FLIPPING_MODE_ID_HORIZONTAL_AND_VERTICAL"
    "next_flipping_mode VIEWPORT_FLIPPING_MODE_ID_HORIZONTAL_AND_VERTICAL =
       VIEWPORT_FLIPPING_MODE_ID_NORMAL"
    by (simp_all add: next_flipping_mode_def Let_def VIEWPORT_FLIPPING_MODE_IDS_COUNT_def
          VIEWPORT_FLIPPING_MODE_ID_NORMAL_def VIEWPORT_FLIPPING_MODE_ID_HORIZONTAL_def
          VIEWPORT_FLIPPING_MODE_ID_VERTICAL_def
          VIEWPORT_FLIPPING_MODE_ID_HORIZONTAL_AND_VERTICAL_def word_le_nat_alt)
  have press: "handle_event cfg s (SDL_KEYDOWN SDLK_f) =
     Some (Continue (s\<lparr>Flipping_Mode := next_flipping_mode (Flipping_Mode s), Zoom_Factor := 1\<rparr>),
           [ViewportSetFlippingMode (next_flipping_mode (Flipping_Mode s))])" for s
    by (simp add: Let_def)
  have four: "\<exists>s' cs. poll_events cfg s
                  [SDL_KEYDOWN SDLK_f, SDL_KEYDOWN SDLK_f, SDL_KEYDOWN SDLK_f, SDL_KEYDOWN SDLK_f] =
                Some (Continue s', cs) \<and>
              Flipping_Mode s' = Flipping_Mode s"
    if "Flipping_Mode s < VIEWPORT_FLIPPING_MODE_IDS_COUNT"
    using next_flipping_mode_four [OF that] by (simp add: press del: handle_event.simps)
  have run: "(\<forall>m. ViewportSetFlippingMode m \<in> set cs \<longrightarrow> m < VIEWPORT_FLIPPING_MODE_IDS_COUNT) \<and>
      (\<forall>s'. fl = Continue s' \<longrightarrow> Flipping_Mode s' < VIEWPORT_FLIPPING_MODE_IDS_COUNT)"
    if loop: "main_loop cfg initial_state frames = Some (fl, cs)"
  proof -
    have step: "(\<forall>c\<in>set cs. \<forall>m. c = ViewportSetFlippingMode m \<longrightarrow> m < VIEWPORT_FLIPPING_MODE_IDS_COUNT) \<and>
                (\<forall>s'. fl = Continue s' \<longrightarrow> Flipping_Mode s' < VIEWPORT_FLIPPING_MODE_IDS_COUNT)"
      if valid: "Flipping_Mode s < VIEWPORT_FLIPPING_MODE_IDS_COUNT"
        and h: "handle_event cfg s ev = Some (fl, cs)"
      for s ev fl cs
    proof
      show "\<forall>c\<in>set cs. \<forall>m. c = ViewportSetFlippingMode m \<longrightarrow> m < VIEWPORT_FLIPPING_MODE_IDS_COUNT"
      proof (intro ballI allI impI)
        fix c m
        assume "c \<in> set cs" and c: "c = ViewportSetFlippingMode m"
        with handle_event_calls [OF h]
        have "m = next_flipping_mode (Flipping_Mode s)" by fastforce
        then show "m < VIEWPORT_FLIPPING_MODE_IDS_COUNT" by (simp add: next_flipping_mode_less)
      qed
      show "\<forall>s'. fl = Continue s' \<longrightarrow> Flipping_Mode s' < VIEWPORT_FLIPPING_MODE_IDS_COUNT"
      proof (intro allI impI)
        fix s'
        assume "fl = Continue s'"
        with h have "handle_event cfg s ev = Some (Continue s', cs)" by simp
        from handle_event_flipping_mode [OF this] valid
        show "Flipping_Mode s' < VIEWPORT_FLIPPING_MODE_IDS_COUNT"
          by (auto simp add: next_flipping_mode_less)
      qed
    qed
    have init: "Flipping_Mode initial_state < VIEWPORT_FLIPPING_MODE_IDS_COUNT"
      by (simp add: initial_state_def VIEWPORT_FLIPPING_MODE_ID_NORMAL_def
            VIEWPORT_FLIPPING_MODE_IDS_COUNT_def)
    have "(\<forall>c\<in>set cs. \<forall>m. c = ViewportSetFlippingMode m \<longrightarrow> m < VIEWPORT_FLIPPING_MODE_IDS_COUNT) \<and>
          (\<forall>s'. fl = Continue s' \<longrightarrow> Flipping_Mode s' < VIEWPORT_FLIPPING_MODE_IDS_COUNT)"
      by (rule main_loop_invariant
            [of "\<lambda>s. Flipping_Mode s < VIEWPORT_FLIPPING_MODE_IDS_COUNT" cfg
                "\<lambda>c. \<forall>m. c = ViewportSetFlippingMode m \<longrightarrow> m < VIEWPORT_FLIPPING_MODE_IDS_COUNT",
              OF step _ _ init loop]) simp_all
    then show ?thesis by blast
  qed
  show ?thesis
  proof (intro conjI impI)
    show "handle_event cfg s (SDL_KEYDOWN SDLK_f) =
     Some (Continue (s\<lparr>Flipping_Mode := next_flipping_mode (Flipping_Mode s), Zoom_Factor := 1\<rparr>),
           [ViewportSetFlippingMode (next_flipping_mode (Flipping_Mode s))])"
      by (fact press)
  qed (use names four run in \<open>blast+\<close>)
qed

theorem flip_cycle_witness:
  "Flipping_Mode \<lparr>Zoom_Factor = 4, Flipping_Mode = 2\<rparr> < VIEWPORT_FLIPPING_MODE_IDS_COUNT \<and>
   (\<exists>s' cs. poll_events sample_configuration \<lparr>Zoom_Factor = 4, Flipping_Mode = 2\<rparr>
                [SDL_KEYDOWN SDLK_f, SDL_KEYDOWN SDLK_f, SDL_KEYDOWN SDLK_f, SDL_KEYDOWN SDLK_f] =
              Some (Continue s', cs) \<and>
            Flipping_Mode s' = Flipping_Mode \<lparr>Zoom_Factor = 4, Flipping_Mode = 2\<rparr>) \<and>
   main_loop sample_configuration initial_state
       [\<lparr>pending = [SDL_KEYDOWN SDLK_f], Frame_Starting_Time = 0, ticks_after_draw = 5\<rparr>] =
     Some (Continue \<lparr>Zoom_Factor = 1, Flipping_Mode = 1\<rparr>,
           [ViewportSetFlippingMode 1, ViewportDrawImage, SDL_Delay 11]) \<and>
   ViewportSetFlippingMode 1 \<in> set [ViewportSetFlippingMode 1, ViewportDrawImage, SDL_Delay 11] \<and>
   (1 :: 32 word) < VIEWPORT_FLIPPING_MODE_IDS_COUNT"
  using flip_cycle
      [of sample_configuration "\<lparr>Zoom_Factor = 4, Flipping_Mode = 2\<rparr>"
          "[\<lparr>pending = [SDL_KEYDOWN SDLK_f], Frame_Starting_Time = 0, ticks_after_draw = 5\<rparr>]"
          "Continue \<lparr>Zoom_Factor = 1, Flipping_Mode = 1\<rparr>"
          "[ViewportSetFlippingMode 1, ViewportDrawImage, SDL_Delay 11]"]
  by (simp add: main_iteration_def frame_delay_def initial_state_def Let_def
        next_flipping_mode_def VIEWPORT_FLIPPING_MODE_IDS_COUNT_def
        VIEWPORT_FLIPPING_MODE_ID_NORMAL_def word_le_nat_alt word_less_nat_alt)

text \<open>
  C6. An iteration of the main loop that goes on to the next one has polled the whole list of
  pending events, has dispatched them, and has then called \<^verbatim>\<open>ViewportDrawImage\<close>: the calls of
  the iteration are those of the events, then the one \<^verbatim>\<open>ViewportDrawImage\<close>, then the pacing
  delay, and \<^verbatim>\<open>ViewportDrawImage\<close> occurs exactly once among them. With the maximum zoom a
  power of two up to \<open>2 ^ 29\<close> and the zoom factor one of its levels, an iteration always comes
  to an end: it returns when a quit signal is among the pending events and goes on otherwise.
\<close>

theorem draw_once_after_events:
  "(main_iteration cfg s f = Some (Continue s', cs) \<longrightarrow>
      (\<exists>evcs. poll_events cfg s (pending f) = Some (Continue s', evcs) \<and>
              cs = evcs @ ViewportDrawImage #
                     frame_delay cfg (Frame_Starting_Time f) (ticks_after_draw f) \<and>
              ViewportDrawImage \<notin> set evcs \<and>
              count_list cs ViewportDrawImage = 1)) \<and>
   (sint (CONFIGURATION_VIEWPORT_MAXIMUM_ZOOM_FACTOR cfg) = 2 ^ m \<and> m \<le> 29 \<and>
    (\<exists>k\<le>m. sint (Zoom_Factor s) = 2 ^ k) \<longrightarrow>
      (\<exists>fl cs. main_iteration cfg s f = Some (fl, cs) \<and>
         (if \<exists>ev\<in>set (pending f). is_quit ev then fl = Return EXIT_SUCCESS
          else (\<exists>s'. fl = Continue s'))))"
proof (intro conjI impI)
  assume run: "main_iteration cfg s f = Some (Continue s', cs)"
  then obtain fl1 cs1 where p: "poll_events cfg s (pending f) = Some (fl1, cs1)"
    by (auto simp add: main_iteration_def split: option.splits)
  with run have fl1: "fl1 = Continue s'"
    and cs: "cs = cs1 @ ViewportDrawImage #
                    frame_delay cfg (Frame_Starting_Time f) (ticks_after_draw f)"
    by (cases fl1; simp add: main_iteration_def)+
  from poll_events_no_draw [OF p] have nd: "ViewportDrawImage \<notin> set cs1" by blast
  then have "count_list cs1 ViewportDrawImage = 0" by (simp add: count_list_0_iff)
  moreover have "count_list (frame_delay cfg t0 t1) ViewportDrawImage = 0" for t0 t1
    by (simp add: frame_delay_def Let_def)
  ultimately have "count_list cs ViewportDrawImage = 1" by (simp add: cs)
  with p fl1 cs nd
  show "\<exists>evcs. poll_events cfg s (pending f) = Some (Continue s', evcs) \<and>
              cs = evcs @ ViewportDrawImage #
                     frame_delay cfg (Frame_Starting_Time f) (ticks_after_draw f) \<and>
              ViewportDrawImage \<notin> set evcs \<and>
              count_list cs ViewportDrawImage = 1"
    by blast
next
  assume a: "sint (CONFIGURATION_VIEWPORT_MAXIMUM_ZOOM_FACTOR cfg) = 2 ^ m \<and> m \<le> 29 \<and>
    (\<exists>k\<le>m. sint (Zoom_Factor s) = 2 ^ k)"
  then have m: "m \<le> 29" and "m < 31" and m30: "m \<le> 30" by simp_all
  with a have cfg: "CONFIGURATION_VIEWPORT_MAXIMUM_ZOOM_FACTOR cfg = 2 ^ m"
    by (simp add: sint_eq_pow2_iff)
  from a have "pow2_upto m (Zoom_Factor s)" by (simp add: pow2_upto_sint [OF m30])
  from main_iteration_zoom_kept [OF cfg m this, of f]
  obtain fl cs where run: "main_iteration cfg s f = Some (fl, cs)"
    unfolding zoom_kept_def by blast
  from main_iteration_flow [OF run] run
  show "\<exists>fl cs. main_iteration cfg s f = Some (fl, cs) \<and>
         (if \<exists>ev\<in>set (pending f). is_quit ev then fl = Return EXIT_SUCCESS
          else (\<exists>s'. fl = Continue s'))"
    by blast
qed

theorem draw_once_after_events_witness:
  "main_iteration sample_configuration \<lparr>Zoom_Factor = 2, Flipping_Mode = 0\<rparr>
       \<lparr>pending = [SDL_MOUSEMOTION 5 6, SDL_KEYDOWN SDLK_s],
        Frame_Starting_Time = 100, ticks_after_draw = 104\<rparr> =
     Some (Continue \<lparr>Zoom_Factor = 1, Flipping_Mode = 0\<rparr>,
           [ViewportSetZoomedArea 5 6 1, ViewportSetZoomedArea 5 6 2, ViewportScaleImage,
            ViewportDrawImage, SDL_Delay 12]) \<and>
   poll_events sample_configuration \<lparr>Zoom_Factor = 2, Flipping_Mode = 0\<rparr>
       [SDL_MOUSEMOTION 5 6, SDL_KEYDOWN SDLK_s] =
     Some (Continue \<lparr>Zoom_Factor = 1, Flipping_Mode = 0\<rparr>,
           [ViewportSetZoomedArea 5 6 1, ViewportSetZoomedArea 5 6 2, ViewportScaleImage]) \<and>
   count_list [ViewportSetZoomedArea 5 6 1, ViewportSetZoomedArea 5 6 2, ViewportScaleImage,
               ViewportDrawImage, SDL_Delay 12] ViewportDrawImage = 1 \<and>
   sint (CONFIGURATION_VIEWPORT_MAXIMUM_ZOOM_FACTOR sample_configuration) = 2 ^ 8 \<and>
   (8::nat) \<le> 29 \<and>
   (\<exists>k\<le>8. sint (Zoom_Factor \<lparr>Zoom_Factor = 2, Flipping_Mode = 0\<rparr>) = 2 ^ k)"
proof -
  have k: "\<exists>k\<le>8. sint (Zoom_Factor \<lparr>Zoom_Factor = 2, Flipping_Mode = 0\<rparr>) = 2 ^ k"
    by (rule exI [of _ 1]) simp
  have run: "main_iteration sample_configuration \<lparr>Zoom_Factor = 2, Flipping_Mode = 0\<rparr>
       \<lparr>pending = [SDL_MOUSEMOTION 5 6, SDL_KEYDOWN SDLK_s],
        Frame_Starting_Time = 100, ticks_after_draw = 104\<rparr> =
     Some (Continue \<lparr>Zoom_Factor = 1, Flipping_Mode = 0\<rparr>,
           [ViewportSetZoomedArea 5 6 1, ViewportSetZoomedArea 5 6 2, ViewportScaleImage,
            ViewportDrawImage, SDL_Delay 12])"
    by (simp add: main_iteration_def frame_delay_def Let_def SDLK_f_def SDLK_q_def SDLK_s_def
          word_sless_alt word_sle_eq zoom_steps.simps)
  from draw_once_after_events
      [of sample_configuration "\<lparr>Zoom_Factor = 2, Flipping_Mode = 0\<rparr>"
          "\<lparr>pending = [SDL_MOUSEMOTION 5 6, SDL_KEYDOWN SDLK_s],
            Frame_Starting_Time = 100, ticks_after_draw = 104\<rparr>"
          "\<lparr>Zoom_Factor = 1, Flipping_Mode = 0\<rparr>"
          "[ViewportSetZoomedArea 5 6 1, ViewportSetZoomedArea 5 6 2, ViewportScaleImage,
            ViewportDrawImage, SDL_Delay 12]" 8]
    run k
  show ?thesis by (simp add: frame_delay_def Let_def)
qed

text \<open>
  C7. \<^verbatim>\<open>EXIT_SUCCESS\<close> is 0 and \<^verbatim>\<open>EXIT_FAILURE\<close> is not. With an argument count other than 2,
  \<^verbatim>\<open>main\<close> prints the usage text and returns \<^verbatim>\<open>EXIT_FAILURE\<close>; with the one argument
  \<^verbatim>\<open>--help\<close> it prints the usage text and returns \<^verbatim>\<open>EXIT_SUCCESS\<close>. With one other argument,
  it returns \<^verbatim>\<open>EXIT_FAILURE\<close> as soon as \<^verbatim>\<open>SDL_Init\<close>, \<^verbatim>\<open>IMG_Init\<close>, \<^verbatim>\<open>IMG_Load\<close> or
  \<^verbatim>\<open>ViewportInitialize\<close> reports a failure. Once the start-up has succeeded, the only value
  \<^verbatim>\<open>main\<close> ever returns is \<^verbatim>\<open>EXIT_SUCCESS\<close>, it returns only when a quit signal (the quit event
  or a press of \<^verbatim>\<open>q\<close>) was polled, and, the maximum zoom being a power of two up to \<open>2 ^ 29\<close>,
  it does return when one is.
\<close>

theorem exit_status:
  "EXIT_SUCCESS = 0 \<and> EXIT_FAILURE \<noteq> 0 \<and>
   (length argv \<noteq> 2 \<longrightarrow>
      main cfg env argv frames =
        Some (Return EXIT_FAILURE, [MainDisplayProgramUsage (argv_0 argv)])) \<and>
   (length argv = 2 \<and> argv ! 1 = ''--help'' \<longrightarrow>
      main cfg env argv frames =
        Some (Return EXIT_SUCCESS, [MainDisplayProgramUsage (argv_0 argv)])) \<and>
   (length argv = 2 \<and> argv ! 1 \<noteq> ''--help'' \<and> \<not> startup_ok env \<longrightarrow>
      (\<exists>cs. main cfg env argv frames = Some (Return EXIT_FAILURE, cs))) \<and>
   (length argv = 2 \<and> argv ! 1 \<noteq> ''--help'' \<and> startup_ok env \<and>
    main cfg env argv frames = Some (Return r, cs) \<longrightarrow>
      r = EXIT_SUCCESS \<and> (\<exists>f\<in>set frames. \<exists>Event\<in>set (pending f). is_quit Event)) \<and>
   (length argv = 2 \<and> argv ! 1 \<noteq> ''--help'' \<and> startup_ok env \<and>
    sint (CONFIGURATION_VIEWPORT_MAXIMUM_ZOOM_FACTOR cfg) = 2 ^ m \<and> m \<le> 29 \<and>
    (\<exists>f\<in>set frames. \<exists>Event\<in>set (pending f). is_quit Event) \<longrightarrow>
      (\<exists>cs. main cfg env argv frames = Some (Return EXIT_SUCCESS, cs)))"
proof (intro conjI impI)
  show "EXIT_SUCCESS = 0" by (simp add: EXIT_SUCCESS_def)
  show "EXIT_FAILURE \<noteq> 0" by (simp add: EXIT_FAILURE_def)
next
  assume "length argv \<noteq> 2"
  then show "main cfg env argv frames =
        Some (Return EXIT_FAILURE, [MainDisplayProgramUsage (argv_0 argv)])"
    by (simp add: main_def)
next
  assume "length argv = 2 \<and> argv ! 1 = ''--help''"
  then show "main cfg env argv frames =
        Some (Return EXIT_SUCCESS, [MainDisplayProgramUsage (argv_0 argv)])"
    by (simp add: main_def)
next
  assume "length argv = 2 \<and> argv ! 1 \<noteq> ''--help'' \<and> \<not> startup_ok env"
  then show "\<exists>cs. main cfg env argv frames = Some (Return EXIT_FAILURE, cs)"
    by (auto simp add: main_def startup_ok_def)
next
  assume a: "length argv = 2 \<and> argv ! 1 \<noteq> ''--help'' \<and> startup_ok env \<and>
    main cfg env argv frames = Some (Return r, cs)"
  then obtain fl cs' where l: "main_loop cfg initial_state frames = Some (fl, cs')"
    by (auto simp add: main_def startup_ok_def split: option.splits)
  with a have fl: "fl = Return r"
    by (cases fl) (auto simp add: main_def startup_ok_def)
  from main_loop_flow [OF l] fl
  show "r = EXIT_SUCCESS" and "\<exists>f\<in>set frames. \<exists>Event\<in>set (pending f). is_quit Event"
    by (auto split: if_splits)
next
  assume a: "length argv = 2 \<and> argv ! 1 \<noteq> ''--help'' \<and> startup_ok env \<and>
    sint (CONFIGURATION_VIEWPORT_MAXIMUM_ZOOM_FACTOR cfg) = 2 ^ m \<and> m \<le> 29 \<and>
    (\<exists>f\<in>set frames. \<exists>Event\<in>set (pending f). is_quit Event)"
  then have m: "m \<le> 29" and "m < 31" by simp_all
  with a have cfg: "CONFIGURATION_VIEWPORT_MAXIMUM_ZOOM_FACTOR cfg = 2 ^ m"
    by (simp add: sint_eq_pow2_iff)
  have "pow2_upto m (Zoom_Factor initial_state)"
    by (simp add: initial_state_def pow2_upto_1)
  from main_loop_zoom_kept [OF cfg m this, of frames]
  obtain fl cs' where l: "main_loop cfg initial_state frames = Some (fl, cs')"
    unfolding zoom_kept_def by blast
  from main_loop_flow [OF l] a have "fl = Return EXIT_SUCCESS" by simp
  with l a show "\<exists>cs. main cfg env argv frames = Some (Return EXIT_SUCCESS, cs)"
    by (simp add: main_def startup_ok_def)
qed

theorem exit_status_witness:
  "main sample_configuration sample_environment [''viewer''] [] =
     Some (Return EXIT_FAILURE, [MainDisplayProgramUsage (Some ''viewer'')]) \<and>
   main sample_configuration sample_environment [''viewer'', ''--help''] [] =
     Some (Return EXIT_SUCCESS, [MainDisplayProgramUsage (Some ''viewer'')]) \<and>
   \<not> startup_ok (sample_environment\<lparr>IMG_Load_result := 0\<rparr>) \<and>
   (\<exists>cs. main sample_configuration (sample_environment\<lparr>IMG_Load_result := 0\<rparr>)
            [''viewer'', ''a.png''] [] = Some (Return EXIT_FAILURE, cs)) \<and>
   startup_ok sample_environment \<and>
   main sample_configuration sample_environment [''viewer'', ''a.png'']
       [\<lparr>pending = [SDL_KEYDOWN SDLK_s, SDL_QUIT], Frame_Starting_Time = 0,
         ticks_after_draw = 3\<rparr>] =
     Some (Return EXIT_SUCCESS,
           [SDL_Init, atexit_MainExit, IMG_Init, IMG_Load ''a.png'',
            ViewportInitialize ''Image Viewer - a.png'', SDL_FreeSurface,
            ViewportScaleImage, IMG_Quit, SDL_Quit]) \<and>
   is_quit SDL_QUIT \<and>
   EXIT_SUCCESS = 0 \<and> EXIT_FAILURE = 1"
proof -
  have ok: "startup_ok sample_environment"
    by (simp add: startup_ok_def IMG_INIT_JPG_def IMG_INIT_PNG_def IMG_INIT_TIF_def)
  have bad: "\<not> startup_ok (sample_environment\<lparr>IMG_Load_result := 0\<rparr>)"
    by (simp add: startup_ok_def)
  have run: "main sample_configuration sample_environment [''viewer'', ''a.png'']
       [\<lparr>pending = [SDL_KEYDOWN SDLK_s, SDL_QUIT], Frame_Starting_Time = 0,
         ticks_after_draw = 3\<rparr>] =
     Some (Return EXIT_SUCCESS,
           [SDL_Init, atexit_MainExit, IMG_Init, IMG_Load ''a.png'',
            ViewportInitialize ''Image Viewer - a.png'', SDL_FreeSurface,
            ViewportScaleImage, IMG_Quit, SDL_Quit])"
    by (simp add: main_def main_iteration_def startup_calls_def String_Program_Title_def
          MainExit_def initial_state_def IMG_INIT_JPG_def IMG_INIT_PNG_def IMG_INIT_TIF_def
          SDLK_f_def SDLK_q_def SDLK_s_def)
  from exit_status [of "[''viewer'']" sample_configuration sample_environment "[]"]
    exit_status [of "[''viewer'', ''--help'']" sample_configuration sample_environment "[]"]
    exit_status [of "[''viewer'', ''a.png'']" sample_configuration
                    "sample_environment\<lparr>IMG_Load_result := 0\<rparr>" "[]"]
    exit_status [of "[''viewer'', ''a.png'']" sample_configuration sample_environment
                    "[\<lparr>pending = [SDL_KEYDOWN SDLK_s, SDL_QUIT], Frame_Starting_Time = 0,
                       ticks_after_draw = 3\<rparr>]" EXIT_SUCCESS
                    "[SDL_Init, atexit_MainExit, IMG_Init, IMG_Load ''a.png'',
                      ViewportInitialize ''Image Viewer - a.png'', SDL_FreeSurface,
                      ViewportScaleImage, IMG_Quit, SDL_Quit]" 8]
    ok bad run
  show ?thesis by (simp add: argv_0_def is_quit_def EXIT_FAILURE_def)
qed

text \<open>
  C8. When a quit signal, the \<^verbatim>\<open>SDL_QUIT\<close> event or a press of \<^verbatim>\<open>q\<close>, comes up in the pending
  events of a frame, after events that were handled without leaving the loop, then the polling
  loop, the iteration and the whole main loop return \<^verbatim>\<open>EXIT_SUCCESS\<close>, which is 0, at once. The
  calls made are those of the events before the signal and nothing more: the events behind
  the signal and the later frames are not dispatched, and \<^verbatim>\<open>ViewportDrawImage\<close> is not called in
  this iteration.
\<close>

theorem quit_exits_immediately:
  assumes "is_quit Event"
    and "poll_events cfg s before = Some (Continue s', cs)"
    and "pending f = before @ Event # after"
  shows "poll_events cfg s (pending f) = Some (Return EXIT_SUCCESS, cs) \<and>
         main_iteration cfg s f = Some (Return EXIT_SUCCESS, cs) \<and>
         main_loop cfg s (f # later_frames) = Some (Return EXIT_SUCCESS, cs) \<and>
         ViewportDrawImage \<notin> set cs \<and>
         EXIT_SUCCESS = 0"
proof -
  from assms(1) have h: "handle_event cfg s' Event = Some (Return EXIT_SUCCESS, [])"
    by (auto simp add: is_quit_def SDLK_f_def SDLK_q_def)
  then have "poll_events cfg s' (Event # after) = Some (Return EXIT_SUCCESS, [])"
    by simp
  with assms(2,3) have p: "poll_events cfg s (pending f) = Some (Return EXIT_SUCCESS, cs)"
    by (simp add: poll_events_append)
  then have i: "main_iteration cfg s f = Some (Return EXIT_SUCCESS, cs)"
    by (simp add: main_iteration_def)
  then have l: "main_loop cfg s (f # later_frames) = Some (Return EXIT_SUCCESS, cs)"
    by simp
  from poll_events_no_draw [OF assms(2)] have "ViewportDrawImage \<notin> set cs" by blast
  with p i l show ?thesis by (simp add: EXIT_SUCCESS_def)
qed

theorem quit_exits_immediately_witness:
  "is_quit (SDL_KEYDOWN SDLK_q) \<and>
   poll_events sample_configuration \<lparr>Zoom_Factor = 2, Flipping_Mode = 0\<rparr>
       [SDL_MOUSEWHEEL 1 7 8] =
     Some (Continue \<lparr>Zoom_Factor = 4, Flipping_Mode = 0\<rparr>, [ViewportSetZoomedArea 7 8 4]) \<and>
   pending \<lparr>pending = [SDL_MOUSEWHEEL 1 7 8, SDL_KEYDOWN SDLK_q, SDL_KEYDOWN SDLK_f],
            Frame_Starting_Time = 0, ticks_after_draw = 1\<rparr> =
     [SDL_MOUSEWHEEL 1 7 8] @ SDL_KEYDOWN SDLK_q # [SDL_KEYDOWN SDLK_f] \<and>
   main_loop sample_configuration \<lparr>Zoom_Factor = 2, Flipping_Mode = 0\<rparr>
       [\<lparr>pending = [SDL_MOUSEWHEEL 1 7 8, SDL_KEYDOWN SDLK_q, SDL_KEYDOWN SDLK_f],
         Frame_Starting_Time = 0, ticks_after_draw = 1\<rparr>,
        \<lparr>pending = [SDL_KEYDOWN SDLK_s], Frame_Starting_Time = 16, ticks_after_draw = 17\<rparr>] =
     Some (Return EXIT_SUCCESS, [ViewportSetZoomedArea 7 8 4])"
proof -
  have q: "is_quit (SDL_KEYDOWN SDLK_q)" by (simp add: is_quit_def)
  have b: "poll_events sample_configuration \<lparr>Zoom_Factor = 2, Flipping_Mode = 0\<rparr>
       [SDL_MOUSEWHEEL 1 7 8] =
     Some (Continue \<lparr>Zoom_Factor = 4, Flipping_Mode = 0\<rparr>, [ViewportSetZoomedArea 7 8 4])"
    by (simp add: Let_def wheel_zoom_def word_sless_alt)
  have p: "pending \<lparr>pending = [SDL_MOUSEWHEEL 1 7 8, SDL_KEYDOWN SDLK_q, SDL_KEYDOWN SDLK_f],
            Frame_Starting_Time = 0, ticks_after_draw = 1\<rparr> =
     [SDL_MOUSEWHEEL 1 7 8] @ SDL_KEYDOWN SDLK_q # [SDL_KEYDOWN SDLK_f]"
    by simp
  from quit_exits_immediately [OF q b p,
      of "[\<lparr>pending = [SDL_KEYDOWN SDLK_s], Frame_Starting_Time = 16, ticks_after_draw = 17\<rparr>]"]
    q b p
  show ?thesis by blast
qed

text \<open>
  C9. An iteration that goes on ends with the pacing of lines 179 and 180. With the elapsed
  time \<^verbatim>\<open>SDL_GetTicks() - Frame_Starting_Time\<close>, taken in \<^verbatim>\<open>unsigned int\<close> arithmetic, the last call
  of the iteration is \<^verbatim>\<open>SDL_Delay\<close> of the period minus the elapsed time when the elapsed time is
  strictly below the period, a difference that does not wrap around; otherwise the iteration
  makes no \<^verbatim>\<open>SDL_Delay\<close> call at all. The rest of the iteration, the calls before the delay
  and the locals handed to the next iteration, is the same whatever the two tick readings are:
  a slow frame skips nothing.
\<close>

theorem frame_pacing:
  assumes "main_iteration cfg s f = Some (Continue s', cs)"
  shows "\<exists>work.
           cs = work @
                (if ticks_after_draw f - Frame_Starting_Time f
                      < CONFIGURATION_DISPLAY_REFRESH_RATE_PERIOD cfg
                 then [SDL_Delay (CONFIGURATION_DISPLAY_REFRESH_RATE_PERIOD cfg
                                   - (ticks_after_draw f - Frame_Starting_Time f))]
                 else []) \<and>
           (\<forall>d. SDL_Delay d \<notin> set work) \<and>
           (ticks_after_draw f - Frame_Starting_Time f
               < CONFIGURATION_DISPLAY_REFRESH_RATE_PERIOD cfg \<longrightarrow>
              unat (CONFIGURATION_DISPLAY_REFRESH_RATE_PERIOD cfg
                     - (ticks_after_draw f - Frame_Starting_Time f)) =
              unat (CONFIGURATION_DISPLAY_REFRESH_RATE_PERIOD cfg)
                - unat (ticks_after_draw f - Frame_Starting_Time f)) \<and>
           (Frame_Starting_Time f \<le> ticks_after_draw f \<longrightarrow>
              unat (ticks_after_draw f - Frame_Starting_Time f) =
              unat (ticks_after_draw f) - unat (Frame_Starting_Time f)) \<and>
           (\<forall>t0 t1. main_iteration cfg s (f\<lparr>Frame_Starting_Time := t0, ticks_after_draw := t1\<rparr>) =
                      Some (Continue s', work @ frame_delay cfg t0 t1))"
proof -
  from assms obtain fl1 cs1 where p: "poll_events cfg s (pending f) = Some (fl1, cs1)"
    by (auto simp add: main_iteration_def split: option.splits)
  with assms have fl1: "fl1 = Continue s'"
    and cs: "cs = (cs1 @ [ViewportDrawImage]) @
                    frame_delay cfg (Frame_Starting_Time f) (ticks_after_draw f)"
    by (cases fl1; simp add: main_iteration_def)+
  from poll_events_no_draw [OF p] have nd: "\<forall>d. SDL_Delay d \<notin> set (cs1 @ [ViewportDrawImage])"
    by auto
  have sub: "unat (a - b) = unat a - unat b" if "b \<le> a" for a b :: "32 word"
    using that by (simp add: unat_sub)
  have any: "main_iteration cfg s (f\<lparr>Frame_Starting_Time := t0, ticks_after_draw := t1\<rparr>) =
               Some (Continue s', (cs1 @ [ViewportDrawImage]) @ frame_delay cfg t0 t1)" for t0 t1
    using p fl1 by (simp add: main_iteration_def)
  show ?thesis
  proof (intro exI [of _ "cs1 @ [ViewportDrawImage]"] conjI impI allI)
    show "cs = (cs1 @ [ViewportDrawImage]) @
                (if ticks_after_draw f - Frame_Starting_Time f
                      < CONFIGURATION_DISPLAY_REFRESH_RATE_PERIOD cfg
                 then [SDL_Delay (CONFIGURATION_DISPLAY_REFRESH_RATE_PERIOD cfg
                                   - (ticks_after_draw f - Frame_Starting_Time f))]
                 else [])"
      by (simp add: cs frame_delay_def Let_def)
  next
    fix d show "SDL_Delay d \<notin> set (cs1 @ [ViewportDrawImage])" using nd by blast
  next
    assume "ticks_after_draw f - Frame_Starting_Time f
               < CONFIGURATION_DISPLAY_REFRESH_RATE_PERIOD cfg"
    then show "unat (CONFIGURATION_DISPLAY_REFRESH_RATE_PERIOD cfg
                     - (ticks_after_draw f - Frame_Starting_Time f)) =
              unat (CONFIGURATION_DISPLAY_REFRESH_RATE_PERIOD cfg)
                - unat (ticks_after_draw f - Frame_Starting_Time f)"
      by (intro sub) simp
  next
    assume "Frame_Starting_Time f \<le> ticks_after_draw f"
    then show "unat (ticks_after_draw f - Frame_Starting_Time f) =
              unat (ticks_after_draw f) - unat (Frame_Starting_Time f)"
      by (rule sub)
  next
    fix t0 t1
    show "main_iteration cfg s (f\<lparr>Frame_Starting_Time := t0, ticks_after_draw := t1\<rparr>) =
                      Some (Continue s', (cs1 @ [ViewportDrawImage]) @ frame_delay cfg t0 t1)"
      by (fact any)
  qed
qed

theorem frame_pacing_witness:
  "main_iteration sample_configuration \<lparr>Zoom_Factor = 1, Flipping_Mode = 0\<rparr>
       \<lparr>pending = [SDL_KEYDOWN SDLK_s], Frame_Starting_Time = 100, ticks_after_draw = 104\<rparr> =
     Some (Continue \<lparr>Zoom_Factor = 1, Flipping_Mode = 0\<rparr>,
           [ViewportScaleImage, ViewportDrawImage, SDL_Delay 12]) \<and>
   (\<exists>work. [ViewportScaleImage, ViewportDrawImage, SDL_Delay 12] = work @ [SDL_Delay 12] \<and>
      main_iteration sample_configuration \<lparr>Zoom_Factor = 1, Flipping_Mode = 0\<rparr>
          \<lparr>pending = [SDL_KEYDOWN SDLK_s], Frame_Starting_Time = 100, ticks_after_draw = 130\<rparr> =
        Some (Continue \<lparr>Zoom_Factor = 1, Flipping_Mode = 0\<rparr>, work))"
proof -
  have run: "main_iteration sample_configuration \<lparr>Zoom_Factor = 1, Flipping_Mode = 0\<rparr>
       \<lparr>pending = [SDL_KEYDOWN SDLK_s], Frame_Starting_Time = 100, ticks_after_draw = 104\<rparr> =
     Some (Continue \<lparr>Zoom_Factor = 1, Flipping_Mode = 0\<rparr>,
           [ViewportScaleImage, ViewportDrawImage, SDL_Delay 12])"
    by (simp add: main_iteration_def frame_delay_def Let_def SDLK_f_def SDLK_q_def SDLK_s_def)
  from frame_pacing [OF run] obtain work where
    cs: "[ViewportScaleImage, ViewportDrawImage, SDL_Delay 12] = work @ [SDL_Delay 12]"
    and any: "\<And>t0 t1. main_iteration sample_configuration \<lparr>Zoom_Factor = 1, Flipping_Mode = 0\<rparr>
          \<lparr>pending = [SDL_KEYDOWN SDLK_s], Frame_Starting_Time = t0, ticks_after_draw = t1\<rparr> =
        Some (Continue \<lparr>Zoom_Factor = 1, Flipping_Mode = 0\<rparr>,
              work @ frame_delay sample_configuration t0 t1)"
    by auto
  have "frame_delay sample_configuration 100 130 = []"
    by (simp add: frame_delay_def)
  with any [of 100 130] cs run show ?thesis by auto
qed

text \<open>
  C10. Every mouse-wheel event makes exactly one call, to \<^verbatim>\<open>ViewportSetZoomedArea\<close>, with the
  cursor position and the zoom factor that the event leaves in the locals. This includes the
  two ends of the range: a wheel event with \<^verbatim>\<open>wheel.y > 0\<close> while the factor equals the maximum,
  and a wheel event with \<^verbatim>\<open>wheel.y <= 0\<close> while the factor equals 1, leave the locals alone and
  still make the call with the unchanged factor.
\<close>

theorem wheel_calls_once:
  "(\<exists>z. handle_event cfg s (SDL_MOUSEWHEEL wy Mouse_X Mouse_Y) =
          Some (Continue (s\<lparr>Zoom_Factor := z\<rparr>), [ViewportSetZoomedArea Mouse_X Mouse_Y z])) \<and>
   (0 <s wy \<and> Zoom_Factor s = CONFIGURATION_VIEWPORT_MAXIMUM_ZOOM_FACTOR cfg \<longrightarrow>
      handle_event cfg s (SDL_MOUSEWHEEL wy Mouse_X Mouse_Y) =
        Some (Continue s, [ViewportSetZoomedArea Mouse_X Mouse_Y (Zoom_Factor s)])) \<and>
   (\<not> 0 <s wy \<and> Zoom_Factor s = 1 \<longrightarrow>
      handle_event cfg s (SDL_MOUSEWHEEL wy Mouse_X Mouse_Y) =
        Some (Continue s, [ViewportSetZoomedArea Mouse_X Mouse_Y 1]))"
  by (simp add: Let_def wheel_zoom_def)

theorem wheel_calls_once_witness:
  "(0::32 word) <s 1 \<and>
   Zoom_Factor \<lparr>Zoom_Factor = 256, Flipping_Mode = 0\<rparr> =
     CONFIGURATION_VIEWPORT_MAXIMUM_ZOOM_FACTOR sample_configuration \<and>
   handle_event sample_configuration \<lparr>Zoom_Factor = 256, Flipping_Mode = 0\<rparr>
       (SDL_MOUSEWHEEL 1 30 40) =
     Some (Continue \<lparr>Zoom_Factor = 256, Flipping_Mode = 0\<rparr>, [ViewportSetZoomedArea 30 40 256]) \<and>
   \<not> (0::32 word) <s - 1 \<and>
   Zoom_Factor \<lparr>Zoom_Factor = 1, Flipping_Mode = 0\<rparr> = 1 \<and>
   handle_event sample_configuration \<lparr>Zoom_Factor = 1, Flipping_Mode = 0\<rparr>
       (SDL_MOUSEWHEEL (- 1) 30 40) =
     Some (Continue \<lparr>Zoom_Factor = 1, Flipping_Mode = 0\<rparr>, [ViewportSetZoomedArea 30 40 1])"
  using wheel_calls_once
      [of sample_configuration "\<lparr>Zoom_Factor = 256, Flipping_Mode = 0\<rparr>" 1 30 40]
    wheel_calls_once
      [of sample_configuration "\<lparr>Zoom_Factor = 1, Flipping_Mode = 0\<rparr>" "- 1" 30 40]
  by (simp add: Let_def wheel_zoom_def word_sless_alt)

end
